(* ===== verification/Prelude.thy ===== *)
theory Prelude
  imports Main "HOL-Library.Word" "HOL-Library.Sublist"
begin

section \<open>Shared types, automation and generic lemmas\<close>

text \<open>
  The vocabulary every component theory uses.  A Go \<open>string\<close> or \<open>[]byte\<close> is an Isabelle
  \<open>string\<close>: an Isabelle \<open>char\<close> is exactly one 8-bit byte, so a character list is a byte
  sequence and literals keep their source spelling.  A Go \<open>rune\<close> is the natural number of
  its code point (runes here only come from decoding or from byte values, never negative).
  Go's 64-bit \<open>int\<close> is \<open>int\<close>; the protobuf \<open>int32\<close> fields are \<open>32 word\<close>, and the
  conversions between the two are written out with \<open>to_int32\<close> and \<open>of_int32\<close>.
\<close>

type_synonym gostring = string

type_synonym rune = nat

type_synonym int32 = "32 word"

abbreviation bv :: "char \<Rightarrow> nat" where
  "bv c \<equiv> of_char c"

abbreviation byte :: "nat \<Rightarrow> char" where
  "byte n \<equiv> char_of n"

text \<open>Go's conversions \<open>int32(x)\<close> (truncation to the low 32 bits) and \<open>int(x)\<close>.\<close>

definition to_int32 :: "int \<Rightarrow> int32" where
  "to_int32 x = word_of_int x"

definition of_int32 :: "int32 \<Rightarrow> int" where
  "of_int32 w = sint w"

text \<open>\<open>math.MaxInt\<close>, written \<open>int(^uint(0)>>1)\<close> in the source.\<close>

definition MaxInt :: int where
  "MaxInt = 2 ^ 63 - 1"

named_theorems roundtrips \<open>decoding what was encoded\<close>
named_theorems progress \<open>a loop body consumes at least one element\<close>

lemma of_to_int32:
  "- (2 ^ 31) \<le> x \<Longrightarrow> x < 2 ^ 31 \<Longrightarrow> of_int32 (to_int32 x) = x"
  unfolding of_int32_def to_int32_def
  by (simp add: signed_of_int signed_take_bit_int_eq_self)

lemma of_int32_range: "- (2 ^ 31) \<le> of_int32 w \<and> of_int32 w < 2 ^ 31"
  unfolding of_int32_def using sint_range_size [of w] by (simp add: word_size)

lemma to_of_int32 [simp]: "to_int32 (of_int32 w) = w"
  by (simp add: to_int32_def of_int32_def)

lemma to_int32_wraps: "to_int32 (x + 2 ^ 32) = to_int32 x"
proof -
  have "(of_int (2 ^ 32) :: 32 word) = 0"
    by simp
  then show ?thesis
    unfolding to_int32_def by (simp only: of_int_add) simp
qed

subsection \<open>Bytes\<close>

lemma bv_less [simp]: "bv c < 256"
  by simp

lemma bv_inject [simp]: "(bv c = bv d) = (c = d)"
  by (rule of_char_eq_iff)

lemma bv_byte: "n < 256 \<Longrightarrow> bv (byte n) = n"
  by simp

lemma ex_byte: "n < 256 \<Longrightarrow> \<exists>c. bv c = n"
  by (rule exI [of _ "byte n"]) simp

subsection \<open>Lists\<close>

lemma map_filter_append [simp]:
  "List.map_filter f (xs @ ys) = List.map_filter f xs @ List.map_filter f ys"
  by (simp add: map_filter_def)

lemma map_filter_Some: "List.map_filter (\<lambda>x. Some (f x)) xs = map f xs"
  by (simp add: map_filter_def)

lemma map_filter_cong_set:
  "(\<And>x. x \<in> set xs \<Longrightarrow> f x = g x) \<Longrightarrow> List.map_filter f xs = List.map_filter g xs"
  by (induction xs) (auto simp: map_filter_simps split: option.split)

lemma concat_map_filter:
  "(\<And>x. x \<in> set xs \<Longrightarrow> \<exists>y. f x = Some y \<and> g y = h x) \<Longrightarrow>
   concat (map g (List.map_filter f xs)) = concat (map h xs)"
  by (induction xs) (fastforce simp: map_filter_simps)+

lemma take_drop_split: "i \<le> j \<Longrightarrow> take (j - i) (drop i xs) @ drop j xs = drop i xs"
  by (metis append_take_drop_id drop_drop le_add_diff_inverse2)

lemma take_drop_past:
  assumes "i \<le> length b"
  shows "take (i + k) (b @ c) = take i b @ take k (drop i b @ c)"
    and "drop (i + k) (b @ c) = drop k (drop i b @ c)"
proof -
  have past: "take i (b @ c) = take i b" "drop i (b @ c) = drop i b @ c"
    using assms by simp_all
  show "take (i + k) (b @ c) = take i b @ take k (drop i b @ c)"
    by (simp only: take_add past)
  show "drop (i + k) (b @ c) = drop k (drop i b @ c)"
    by (simp only: add.commute [of i k] drop_drop [symmetric] past)
qed

end
