(* ===== verification/Utf8.thy ===== *)
theory Utf8
  imports Prelude
begin

section \<open>Go's UTF-8 primitives\<close>

text \<open>
  The part of Go's standard library the text layer relies on: \<open>utf8.FullRune\<close>,
  \<open>utf8.DecodeRune\<close>, the \<open>for i, r := range s\<close> loop over a string, and the conversion
  \<open>string(r)\<close>.  The definitions follow the library's own tables: the class of a leading
  byte gives the length of the sequence and the range accepted for the second byte;
  anything else decodes to U+FFFD with width 1.  These definitions model no file of the
  repository; they are what the components below call.
\<close>

definition RuneSelf :: nat where "RuneSelf = 128"

definition RuneError :: rune where "RuneError = 65533"

text \<open>Length announced by a leading byte; 1 for ASCII and for bytes that start nothing.\<close>

definition seqLen :: "nat \<Rightarrow> nat" where
  "seqLen b =
     (if b < 194 then 1 else if b < 224 then 2 else if b < 240 then 3
      else if b < 245 then 4 else 1)"

text \<open>Range accepted for the second byte (the library's \<open>acceptRanges\<close>).\<close>

definition accLo :: "nat \<Rightarrow> nat" where
  "accLo b = (if b = 224 then 160 else if b = 240 then 144 else 128)"

definition accHi :: "nat \<Rightarrow> nat" where
  "accHi b = (if b = 237 then 159 else if b = 244 then 143 else 191)"

definition okCont :: "nat \<Rightarrow> bool" where
  "okCont b = (128 \<le> b \<and> b \<le> 191)"

definition okSecond :: "nat \<Rightarrow> nat \<Rightarrow> bool" where
  "okSecond b0 b1 = (accLo b0 \<le> b1 \<and> b1 \<le> accHi b0)"

definition FullRune :: "gostring \<Rightarrow> bool" where
  "FullRune p =
     (if p = [] then False
      else let b0 = bv (p ! 0) in
        if seqLen b0 \<le> length p then True
        else if 1 < length p \<and> \<not> okSecond b0 (bv (p ! 1)) then True
        else if 2 < length p \<and> \<not> okCont (bv (p ! 2)) then True
        else False)"

definition DecodeRune :: "gostring \<Rightarrow> rune \<times> nat" where
  "DecodeRune p =
     (if p = [] then (RuneError, 0)
      else let b0 = bv (p ! 0); n = seqLen b0 in
        if b0 < RuneSelf then (b0, 1)
        else if n = 1 then (RuneError, 1)
        else if length p < n then (RuneError, 1)
        else let b1 = bv (p ! 1) in
          if \<not> okSecond b0 b1 then (RuneError, 1)
          else if n = 2 then ((b0 mod 32) * 64 + b1 mod 64, 2)
          else let b2 = bv (p ! 2) in
            if \<not> okCont b2 then (RuneError, 1)
            else if n = 3 then ((b0 mod 16) * 4096 + (b1 mod 64) * 64 + b2 mod 64, 3)
            else let b3 = bv (p ! 3) in
              if \<not> okCont b3 then (RuneError, 1)
              else ((b0 mod 8) * 262144 + (b1 mod 64) * 4096 + (b2 mod 64) * 64 + b3 mod 64, 4))"

text \<open>\<open>string(r)\<close>: the UTF-8 encoding of a code point, U+FFFD's for what is no scalar.\<close>

definition scalar :: "rune \<Rightarrow> bool" where
  "scalar r = (r < 55296 \<or> 57344 \<le> r \<and> r < 1114112)"

definition EncodeRune :: "rune \<Rightarrow> gostring" where
  "EncodeRune r =
     (let r = (if scalar r then r else RuneError) in
      if r < 128 then [byte r]
      else if r < 2048 then [byte (192 + r div 64), byte (128 + r mod 64)]
      else if r < 65536 then
        [byte (224 + r div 4096), byte (128 + r div 64 mod 64), byte (128 + r mod 64)]
      else
        [byte (240 + r div 262144), byte (128 + r div 4096 mod 64),
         byte (128 + r div 64 mod 64), byte (128 + r mod 64)])"

subsection \<open>Width of a decoded rune\<close>

lemma seqLen_bounds: "1 \<le> seqLen b \<and> seqLen b \<le> 4"
  by (simp add: seqLen_def)

lemma DecodeRune_Nil [simp]: "DecodeRune [] = (RuneError, 0)"
  by (simp add: DecodeRune_def)

lemma DecodeRune_width:
  "p \<noteq> [] \<Longrightarrow> 1 \<le> snd (DecodeRune p) \<and> snd (DecodeRune p) \<le> length p \<and> snd (DecodeRune p) \<le> 4"
  using seqLen_bounds [of "bv (p ! 0)"]
  by (cases p) (auto simp: DecodeRune_def Let_def Suc_le_eq)

lemma DecodeRune_pos [progress]: "p \<noteq> [] \<Longrightarrow> 0 < snd (DecodeRune p)"
  using DecodeRune_width [of p] by simp

lemma DecodeRune_le_length: "snd (DecodeRune p) \<le> length p"
  using DecodeRune_width [of p] by (cases "p = []") auto

lemma DecodeRune_ascii: "p \<noteq> [] \<Longrightarrow> bv (p ! 0) < RuneSelf \<Longrightarrow> DecodeRune p = (bv (p ! 0), 1)"
  by (simp add: DecodeRune_def)

subsection \<open>Full runes\<close>

lemma FullRune_Nil [simp]: "\<not> FullRune []"
  by (simp add: FullRune_def)

lemma FullRune_ascii: "p \<noteq> [] \<Longrightarrow> bv (p ! 0) < RuneSelf \<Longrightarrow> FullRune p"
  by (cases p) (auto simp: FullRune_def seqLen_def RuneSelf_def)

lemma not_FullRune_short: "\<not> FullRune p \<Longrightarrow> length p \<le> 3"
  using seqLen_bounds [of "bv (p ! 0)"]
  by (auto simp: FullRune_def Let_def split: if_splits)

text \<open>More bytes never change the answer once a rune is full, nor what it decodes to.\<close>

lemma FullRune_append: "FullRune p \<Longrightarrow> FullRune (p @ q)"
  by (auto simp: FullRune_def Let_def nth_append split: if_splits)

lemma DecodeRune_append:
  assumes full: "FullRune p"
  shows "DecodeRune (p @ q) = DecodeRune p"
proof -
  from full have ne: "p \<noteq> []" by auto
  show ?thesis
  proof (cases "seqLen (bv (p ! 0)) \<le> length p")
    case True
    then show ?thesis using ne seqLen_bounds [of "bv (p ! 0)"]
      by (auto simp: DecodeRune_def Let_def nth_append)
  next
    case False
    with full ne show ?thesis
      by (auto simp: DecodeRune_def FullRune_def Let_def nth_append split: if_splits)
  qed
qed

lemma not_FullRune_drop_prefix: "FullRune p \<Longrightarrow> prefix p q \<Longrightarrow> FullRune q"
  by (auto elim!: prefixE intro: FullRune_append)

subsection \<open>Encoding and decoding one rune\<close>

lemma scalar_RuneError [simp]: "scalar RuneError"
  by (simp add: scalar_def RuneError_def)

lemma EncodeRune_nonempty [simp]: "EncodeRune r \<noteq> []"
  by (simp add: EncodeRune_def Let_def)

text \<open>The payload bits of leading and continuation bytes.\<close>

lemma payload:
  "h < 32 \<Longrightarrow> (192 + h) mod 32 = (h::nat)"
  "h < 16 \<Longrightarrow> (224 + h) mod 16 = (h::nat)"
  "h < 8 \<Longrightarrow> (240 + h) mod 8 = (h::nat)"
  "(128 + k mod 64) mod 64 = (k::nat) mod 64"
  using mod_add_left_eq [of "192::nat" 32 h] mod_add_left_eq [of "224::nat" 16 h]
    mod_add_left_eq [of "240::nat" 8 h] mod_add_left_eq [of "128::nat" 64 "k mod 64"]
  by simp_all

lemma div64_steps: "(r::nat) div 4096 = r div 64 div 64" "r div 262144 = r div 4096 div 64"
  by (simp_all add: div_mult2_eq [symmetric])

lemma base64_digits:
  fixes r :: nat
  shows "r div 64 * 64 + r mod 64 = r"
    and "r div 4096 * 4096 + (r div 64 mod 64) * 64 + r mod 64 = r"
    and "r div 262144 * 262144 + (r div 4096 mod 64) * 4096 + (r div 64 mod 64) * 64 + r mod 64 = r"
  using div_mult_mod_eq [of r 64] div_mult_mod_eq [of "r div 64" 64]
    div_mult_mod_eq [of "r div 4096" 64]
  unfolding div64_steps by linarith+

lemma EncodeRune_classes:
  shows "scalar r \<Longrightarrow> 2048 \<le> r \<Longrightarrow> r < 65536 \<Longrightarrow>
      okSecond (224 + r div 4096) (128 + r div 64 mod 64)"
    and "scalar r \<Longrightarrow> 65536 \<le> r \<Longrightarrow> okSecond (240 + r div 262144) (128 + r div 4096 mod 64)"
    and "okCont (128 + k mod 64)"
proof -
  assume r: "scalar r" "2048 \<le> r" "r < 65536"
  have "r div 64 mod 64 \<le> 31" if "r div 4096 = 13"
    using that r div_mult_mod_eq [of "r div 64" 64] div_mult_mod_eq [of r 64]
    unfolding div64_steps by (auto simp: scalar_def)
  moreover have "32 \<le> r div 64 mod 64" if "r div 4096 = 0"
    using that r div_mult_mod_eq [of "r div 64" 64] div_mult_mod_eq [of r 64]
    unfolding div64_steps by auto
  moreover have "r div 4096 < 16" using r by auto
  ultimately show "okSecond (224 + r div 4096) (128 + r div 64 mod 64)"
    unfolding okSecond_def accLo_def accHi_def by auto
next
  assume r: "scalar r" "65536 \<le> r"
  have "r div 4096 mod 64 \<le> 15" if "r div 262144 = 4"
    using that r div_mult_mod_eq [of "r div 4096" 64] div_mult_mod_eq [of r 4096]
    unfolding div64_steps(2) by (auto simp: scalar_def)
  moreover have "16 \<le> r div 4096 mod 64" if "r div 262144 = 0"
    using that r div_mult_mod_eq [of "r div 4096" 64] div_mult_mod_eq [of r 4096]
    unfolding div64_steps(2) by auto
  ultimately show "okSecond (240 + r div 262144) (128 + r div 4096 mod 64)"
    unfolding okSecond_def accLo_def accHi_def by auto
qed (simp add: okCont_def)

lemma DecodeRune_EncodeRune [roundtrips]:
  assumes "scalar r"
  shows "DecodeRune (EncodeRune r @ q) = (r, length (EncodeRune r))"
proof -
  note simps = EncodeRune_def DecodeRune_def RuneSelf_def bv_byte payload base64_digits
    EncodeRune_classes
  consider "r < 128" | "128 \<le> r" "r < 2048" | "2048 \<le> r" "r < 65536" | "65536 \<le> r" "r < 1114112"
    using assms by (fastforce simp: scalar_def)
  then show ?thesis
  proof cases
    case 1
    then show ?thesis using assms by (simp add: simps)
  next
    case 2
    let ?h = "r div 64"
    have h: "2 \<le> ?h" "?h < 32" using 2 by auto
    then have "seqLen (192 + ?h) = 2" "okSecond (192 + ?h) (128 + r mod 64)"
      by (simp_all add: seqLen_def okSecond_def accLo_def accHi_def)
    then show ?thesis using 2 h assms by (simp add: simps Let_def)
  next
    case 3
    have "seqLen (224 + r div 4096) = 3" using 3 by (simp add: seqLen_def)
    then show ?thesis using 3 assms
      by (simp add: simps Let_def)
  next
    case 4
    have "seqLen (240 + r div 262144) = 4" using 4 by (simp add: seqLen_def)
    then show ?thesis using 4 assms
      by (simp add: simps Let_def)
  qed
qed

lemma DecodeRune_EncodeRune_alone [roundtrips]:
  "scalar r \<Longrightarrow> DecodeRune (EncodeRune r) = (r, length (EncodeRune r))"
  using DecodeRune_EncodeRune [of r "[]"] by simp

subsection \<open>The range loop over a string\<close>

text \<open>The pairs \<open>(r, i)\<close> that \<open>for i, r := range s\<close> visits, from byte offset \<open>off\<close>.\<close>

function rangeFrom :: "nat \<Rightarrow> gostring \<Rightarrow> (rune \<times> nat) list" where
  "rangeFrom off s =
     (if s = [] then []
      else (fst (DecodeRune s), off)
             # rangeFrom (off + snd (DecodeRune s)) (drop (snd (DecodeRune s)) s))"
  by pat_completeness auto
termination
  by (relation "measure (\<lambda>(off, s). length s)") (auto simp: DecodeRune_pos)

declare rangeFrom.simps [simp del]

definition runesOf :: "gostring \<Rightarrow> rune list" where
  "runesOf s = map fst (rangeFrom 0 s)"

lemma rangeFrom_Nil [simp]: "rangeFrom off [] = []"
  by (simp add: rangeFrom.simps)

lemma rangeFrom_step:
  "s \<noteq> [] \<Longrightarrow> rangeFrom off s =
     (fst (DecodeRune s), off) # rangeFrom (off + snd (DecodeRune s)) (drop (snd (DecodeRune s)) s)"
  by (subst rangeFrom.simps) simp

lemma rangeFrom_fst: "map fst (rangeFrom off s) = map fst (rangeFrom off' s)"
proof (induction off s arbitrary: off' rule: rangeFrom.induct)
  case (1 off s)
  then show ?case
    by (cases "s = []") (simp_all add: rangeFrom_step [of s off] rangeFrom_step [of s off'])
qed

lemma runesOf_Nil [simp]: "runesOf [] = []"
  by (simp add: runesOf_def)

lemma runesOf_step:
  "s \<noteq> [] \<Longrightarrow> runesOf s = fst (DecodeRune s) # runesOf (drop (snd (DecodeRune s)) s)"
  using rangeFrom_fst [of "snd (DecodeRune s)" _ 0]
  by (simp add: runesOf_def rangeFrom_step)

lemma runesOf_EncodeRune [roundtrips]: "scalar r \<Longrightarrow> runesOf (EncodeRune r @ q) = r # runesOf q"
  by (subst runesOf_step) (simp_all add: roundtrips)

lemma runesOf_concat [roundtrips]:
  "(\<And>r. r \<in> set rs \<Longrightarrow> scalar r) \<Longrightarrow> runesOf (concat (map EncodeRune rs) @ q) = rs @ runesOf q"
  by (induction rs) (simp_all add: runesOf_EncodeRune)

text \<open>Offsets: they start at \<open>off\<close>, increase strictly and stay below the end.\<close>

lemma rangeFrom_offsets:
  "sorted_wrt (<) (map snd (rangeFrom off s)) \<and>
   (\<forall>i \<in> set (map snd (rangeFrom off s)). off \<le> i \<and> i < off + length s)"
proof (induction off s rule: rangeFrom.induct)
  case (1 off s)
  show ?case
  proof (cases "s = []")
    case False
    let ?w = "snd (DecodeRune s)"
    have w: "0 < ?w" "?w \<le> length s"
      using DecodeRune_pos [OF False] DecodeRune_le_length by auto
    with False "1.IH" show ?thesis
      by (subst (1 2) rangeFrom_step) (fastforce simp: Suc_le_eq)+
  qed simp
qed

lemma rangeFrom_length: "length (rangeFrom off s) \<le> length s"
proof (induction off s rule: rangeFrom.induct)
  case (1 off s)
  then show ?case
    using DecodeRune_pos [of s] DecodeRune_le_length [of s]
    by (cases "s = []") (auto simp: rangeFrom_step [of s off])
qed

lemma rangeFrom_hd: "s \<noteq> [] \<Longrightarrow> rangeFrom off s ! 0 = (fst (DecodeRune s), off)"
  by (simp add: rangeFrom_step)

lemma rangeFrom_eq_Nil [simp]: "rangeFrom off s = [] \<longleftrightarrow> s = []"
  by (cases "s = []") (simp_all add: rangeFrom_step)

subsection \<open>Well-formed UTF-8\<close>

text \<open>\<open>utf8.ValidString\<close>: no step of the range loop meets an invalid sequence.\<close>

function ValidString :: "gostring \<Rightarrow> bool" where
  "ValidString s =
     (if s = [] then True
      else if DecodeRune s = (RuneError, 1) then False
      else ValidString (drop (snd (DecodeRune s)) s))"
  by pat_completeness auto
termination
  by (relation "measure length") (auto simp: DecodeRune_pos)

declare ValidString.simps [simp del]

lemma ValidString_Nil [simp]: "ValidString []"
  by (subst ValidString.simps) simp

lemma ValidString_step:
  "s \<noteq> [] \<Longrightarrow> ValidString s =
     (DecodeRune s \<noteq> (RuneError, 1) \<and> ValidString (drop (snd (DecodeRune s)) s))"
  by (subst ValidString.simps) simp

lemma EncodeRune_wide: "scalar r \<Longrightarrow> length (EncodeRune r) = 1 \<Longrightarrow> r < 128"
  by (auto simp: EncodeRune_def Let_def split: if_splits)

lemma ValidString_EncodeRune: "scalar r \<Longrightarrow> ValidString (EncodeRune r @ q) = ValidString q"
  using EncodeRune_wide [of r]
  by (subst ValidString_step) (auto simp: DecodeRune_EncodeRune RuneError_def)

text \<open>A sequence that is not yet a full rune decodes to the error rune of width 1.\<close>

lemma DecodeRune_not_full:
  "p \<noteq> [] \<Longrightarrow> \<not> FullRune p \<Longrightarrow> DecodeRune p = (RuneError, 1)"
  using FullRune_ascii [of p]
  by (cases p) (auto simp: FullRune_def DecodeRune_def Let_def neq_Nil_conv split: if_splits)

lemma not_FullRune_invalid: "p \<noteq> [] \<Longrightarrow> \<not> FullRune p \<Longrightarrow> \<not> ValidString p"
  by (simp add: ValidString_step DecodeRune_not_full)

text \<open>A rune that decodes is decided by its own bytes.\<close>

lemma DecodeRune_take:
  assumes "p \<noteq> []" and "DecodeRune p \<noteq> (RuneError, 1)"
  shows "FullRune (take (snd (DecodeRune p)) p)"
    and "DecodeRune (take (snd (DecodeRune p)) p) = DecodeRune p"
proof -
  let ?b0 = "bv (p ! 0)"
  have *: "snd (DecodeRune p) = seqLen ?b0" "seqLen ?b0 \<le> length p" "0 < seqLen ?b0"
    using assms seqLen_bounds [of ?b0]
    by (auto simp: DecodeRune_def Let_def Suc_le_eq seqLen_def [of ?b0] RuneSelf_def split: if_splits)
  then show "FullRune (take (snd (DecodeRune p)) p)"
    using assms(1) by (simp add: FullRune_def min_def)
  show "DecodeRune (take (snd (DecodeRune p)) p) = DecodeRune p"
    using * assms by (simp add: DecodeRune_def [of "take _ _"] min_def)
      (auto simp: DecodeRune_def Let_def split: if_splits)
qed

lemma ValidString_take_step:
  assumes "p \<noteq> []" and "DecodeRune p \<noteq> (RuneError, 1)"
  shows "ValidString (take (snd (DecodeRune p)) p @ q) = ValidString q"
proof -
  let ?t = "take (snd (DecodeRune p)) p"
  have d: "DecodeRune (?t @ q) = DecodeRune p"
    using DecodeRune_append [OF DecodeRune_take(1) [OF assms]] DecodeRune_take(2) [OF assms] by simp
  have "length ?t = snd (DecodeRune p)"
    using DecodeRune_le_length [of p] by simp
  moreover have "?t @ q \<noteq> []" using DecodeRune_pos [OF assms(1)] assms(1) by simp
  ultimately show ?thesis using assms(2) d by (simp add: ValidString_step)
qed

end
