(* ===== verification/Tokenizer.thy ===== *)
theory Tokenizer
  imports Utf8
begin

section \<open>The tokenizer's tables and lookups\<close>

text \<open>
  \<open>internal/tokenizer/tokenizer.go\<close>: the \<open>Tokenizer\<close> struct, the GPT-2 byte/symbol tables
  of \<open>buildByteMaps\<close>, \<open>symToBytes\<close>, and the lookups \<open>Decode\<close>, \<open>ID\<close>, \<open>IsSpecial\<close> and
  \<open>VocabSize\<close>.  The array \<open>byteToSym\<close>, indexed by a byte, is a function from bytes; Go maps
  are maps; \<open>idToTok\<close> and \<open>specialF\<close> are lists indexed by id.
\<close>

record special =
  sp_str :: gostring
  sp_id :: int

record tokenizer =
  byteToSym :: "char \<Rightarrow> gostring"
  cpToByte :: "rune \<rightharpoonup> char"
  tokToID :: "gostring \<rightharpoonup> int"
  idToTok :: "gostring list"
  specialF :: "bool list"
  mergeRank :: "gostring \<rightharpoonup> int"
  specials :: "special list"

text \<open>The zero value with its maps made, as \<open>Load\<close> starts from.\<close>

definition new_tokenizer :: tokenizer where
  "new_tokenizer =
     \<lparr>byteToSym = (\<lambda>_. []), cpToByte = Map.empty, tokToID = Map.empty, idToTok = [],
      specialF = [], mergeRank = Map.empty, specials = []\<rparr>"

subsection \<open>Byte and symbol tables\<close>

text \<open>The bytes the three \<open>add\<close> calls mark.\<close>

definition printable :: "nat \<Rightarrow> bool" where
  "printable b = (33 \<le> b \<and> b \<le> 126 \<or> 161 \<le> b \<and> b \<le> 172 \<or> 174 \<le> b \<and> b \<le> 255)"

definition buildByteMaps_step :: "nat \<Rightarrow> nat \<times> tokenizer \<Rightarrow> nat \<times> tokenizer" where
  "buildByteMaps_step b = (\<lambda>(n, t).
     let (cp, n') = (if printable b then (b, n) else (256 + n, n + 1)) in
     (n', t\<lparr>byteToSym := (byteToSym t)(byte b := EncodeRune cp),
           cpToByte := (cpToByte t)(cp \<mapsto> byte b)\<rparr>))"

definition buildByteMaps :: "tokenizer \<Rightarrow> tokenizer" where
  "buildByteMaps t = snd (fold buildByteMaps_step [0..<256] (0, t))"

definition symToBytes :: "tokenizer \<Rightarrow> gostring \<Rightarrow> gostring" where
  "symToBytes t s = List.map_filter (cpToByte t) (runesOf s)"

subsection \<open>Lookups\<close>

definition Decode :: "tokenizer \<Rightarrow> int list \<Rightarrow> gostring" where
  "Decode t ids = concat (map (\<lambda>id.
     if 0 \<le> id \<and> id < int (length (idToTok t)) then idToTok t ! nat id else []) ids)"

definition ID :: "tokenizer \<Rightarrow> gostring \<Rightarrow> int option" where
  "ID t token = tokToID t token"

definition IsSpecial :: "tokenizer \<Rightarrow> int \<Rightarrow> bool" where
  "IsSpecial t i = (0 \<le> i \<and> i < int (length (specialF t)) \<and> specialF t ! nat i)"

definition VocabSize :: "tokenizer \<Rightarrow> int" where
  "VocabSize t = int (length (idToTok t))"

lemma Decode_Nil [simp]: "Decode t [] = []"
  by (simp add: Decode_def)

lemma Decode_append [simp]: "Decode t (xs @ ys) = Decode t xs @ Decode t ys"
  by (simp add: Decode_def)

lemma Decode_Cons: "Decode t (x # xs) = Decode t [x] @ Decode t xs"
  by (simp add: Decode_def)

lemma Decode_out_of_range: "i < 0 \<or> VocabSize t \<le> i \<Longrightarrow> Decode t [i] = []"
  by (auto simp: Decode_def VocabSize_def)

text \<open>What a client relies on when it decodes token by token: decoding is concatenative.\<close>

locale token_decoder =
  fixes decode :: "int list \<Rightarrow> gostring"
  assumes decode_Nil: "decode [] = []"
    and decode_append: "decode (xs @ ys) = decode xs @ decode ys"
begin

lemma decode_tokenwise: "concat (map (\<lambda>x. decode [x]) xs) = decode xs"
proof (induction xs)
  case (Cons x xs)
  then show ?case using decode_append [of "[x]" xs] by simp
qed (simp add: decode_Nil)

end

interpretation tok: token_decoder "Decode t" for t
  by unfold_locales simp_all

subsection \<open>The code point of a byte\<close>

definition nonPrintable :: "nat \<Rightarrow> nat" where
  "nonPrintable b = length (filter (\<lambda>x. \<not> printable x) [0..<b])"

definition cpOf :: "nat \<Rightarrow> rune" where
  "cpOf b = (if printable b then b else 256 + nonPrintable b)"

lemma nonPrintable_Suc: "nonPrintable (Suc b) = nonPrintable b + (if printable b then 0 else 1)"
  by (simp add: nonPrintable_def)

lemma nonPrintable_mono: "a \<le> b \<Longrightarrow> nonPrintable a \<le> nonPrintable b"
  by (induction b) (auto simp: nonPrintable_Suc le_Suc_eq)

lemma nonPrintable_less: "a < b \<Longrightarrow> \<not> printable a \<Longrightarrow> nonPrintable a < nonPrintable b"
  using nonPrintable_mono [of "Suc a" b] by (simp add: nonPrintable_Suc)

lemma nonPrintable_le: "nonPrintable b \<le> b"
  using length_filter_le [of "\<lambda>x. \<not> printable x" "[0..<b]"] by (simp add: nonPrintable_def)

lemma printable_less: "printable b \<Longrightarrow> b < 256"
  by (auto simp: printable_def)

lemma cpOf_inject: "cpOf a = cpOf b \<longleftrightarrow> a = b"
proof
  assume eq: "cpOf a = cpOf b"
  show "a = b"
  proof (rule ccontr)
    assume "a \<noteq> b"
    then consider "a < b" | "b < a" by linarith
    then show False
      using eq nonPrintable_less [of a b] nonPrintable_less [of b a]
        printable_less [of a] printable_less [of b]
      by cases (auto simp: cpOf_def split: if_splits)
  qed
qed simp

lemma cpOf_scalar: "scalar (cpOf (bv c))"
  using nonPrintable_le [of "bv c"] bv_less [of c]
  by (auto simp: scalar_def cpOf_def simp del: bv_less)

text \<open>The tables after the loop has seen the bytes below \<open>k\<close>.\<close>

definition tables_upto :: "nat \<Rightarrow> tokenizer \<Rightarrow> bool" where
  "tables_upto k t =
     ((\<forall>c. bv c < k \<longrightarrow> byteToSym t c = EncodeRune (cpOf (bv c)) \<and> cpToByte t (cpOf (bv c)) = Some c))"

abbreviation tables_ok :: "tokenizer \<Rightarrow> bool" where
  "tables_ok t \<equiv> tables_upto 256 t"

lemma buildByteMaps_loop:
  assumes "k \<le> 256" and "fold buildByteMaps_step [0..<k] (0, t) = (n, t')"
  shows "n = nonPrintable k \<and> tables_upto k t'"
  using assms
proof (induction k arbitrary: n t')
  case 0
  then show ?case by (simp add: nonPrintable_def tables_upto_def)
next
  case (Suc k)
  obtain n0 t0 where f: "fold buildByteMaps_step [0..<k] (0, t) = (n0, t0)" by fastforce
  with Suc.IH Suc.prems(1) have IH: "n0 = nonPrintable k" "tables_upto k t0" by auto
  have k: "k < 256" using Suc.prems(1) by simp
  from f Suc.prems(2) have step: "buildByteMaps_step k (n0, t0) = (n, t')" by simp
  then have t': "t' = t0\<lparr>byteToSym := (byteToSym t0)(byte k := EncodeRune (cpOf k)),
      cpToByte := (cpToByte t0)(cpOf k \<mapsto> byte k)\<rparr>" and n: "n = nonPrintable (Suc k)"
    using IH(1) by (auto simp: buildByteMaps_step_def cpOf_def nonPrintable_Suc split: if_splits)
  have "tables_upto (Suc k) t'"
    unfolding tables_upto_def
  proof (intro allI impI)
    fix c assume "bv c < Suc k"
    then consider "bv c < k" | "c = byte k" by (auto simp: less_Suc_eq)
    then show "byteToSym t' c = EncodeRune (cpOf (bv c)) \<and> cpToByte t' (cpOf (bv c)) = Some c"
      using IH(2) k by cases (auto simp: t' tables_upto_def cpOf_inject)
  qed
  with n show ?case by simp
qed

lemma buildByteMaps_tables: "tables_ok (buildByteMaps t)"
proof -
  obtain n t' where "fold buildByteMaps_step [0..<256] (0, t) = (n, t')" by fastforce
  then show ?thesis using buildByteMaps_loop [of 256 t n t'] by (simp add: buildByteMaps_def)
qed

text \<open>The loop leaves every other field alone.\<close>

lemma buildByteMaps_frame:
  "tokToID (buildByteMaps t) = tokToID t" "idToTok (buildByteMaps t) = idToTok t"
  "specialF (buildByteMaps t) = specialF t" "mergeRank (buildByteMaps t) = mergeRank t"
  "specials (buildByteMaps t) = specials t"
proof -
  have "\<forall>n. let t' = snd (fold buildByteMaps_step xs (n, t)) in
      tokToID t' = tokToID t \<and> idToTok t' = idToTok t \<and> specialF t' = specialF t \<and>
      mergeRank t' = mergeRank t \<and> specials t' = specials t" for xs
    by (induction xs arbitrary: t) (simp_all add: buildByteMaps_step_def Let_def)
  then show "tokToID (buildByteMaps t) = tokToID t" "idToTok (buildByteMaps t) = idToTok t"
    "specialF (buildByteMaps t) = specialF t" "mergeRank (buildByteMaps t) = mergeRank t"
    "specials (buildByteMaps t) = specials t"
    by (simp_all add: buildByteMaps_def Let_def)
qed

subsection \<open>Symbol space\<close>

text \<open>The symbol-space spelling of a byte sequence, and the code's own decoder as its inverse.\<close>

definition symsOf :: "tokenizer \<Rightarrow> gostring \<Rightarrow> gostring" where
  "symsOf t bs = concat (map (byteToSym t) bs)"

lemma symsOf_append [simp]: "symsOf t (a @ b) = symsOf t a @ symsOf t b"
  by (simp add: symsOf_def)

lemma symsOf_eq:
  "tables_ok t \<Longrightarrow> symsOf t bs = concat (map EncodeRune (map (\<lambda>c. cpOf (bv c)) bs))"
  by (simp add: symsOf_def tables_upto_def comp_def cong: map_cong)

lemma symToBytes_symsOf [roundtrips]:
  assumes "tables_ok t"
  shows "symToBytes t (symsOf t bs) = bs"
proof -
  let ?rs = "map (\<lambda>c. cpOf (bv c)) bs"
  have "runesOf (concat (map EncodeRune ?rs) @ []) = ?rs @ runesOf []"
    by (rule runesOf_concat) (auto simp: cpOf_scalar)
  then have "runesOf (symsOf t bs) = ?rs"
    by (simp add: symsOf_eq [OF assms])
  then show ?thesis
    using assms by (simp add: symToBytes_def map_filter_def tables_upto_def comp_def)
qed

lemma symsOf_inject: "tables_ok t \<Longrightarrow> symsOf t a = symsOf t b \<longleftrightarrow> a = b"
  by (metis symToBytes_symsOf)

subsection \<open>The table property\<close>

text \<open>
  C28: the tables \<open>buildByteMaps\<close> fills invert each other: spelling any byte sequence
  in symbol space and decoding the symbols with \<open>symToBytes\<close> gives the bytes back.
\<close>

theorem byte_symbols_roundtrip:
  "symToBytes (buildByteMaps t) (symsOf (buildByteMaps t) bs) = bs"
  by (rule symToBytes_symsOf [OF buildByteMaps_tables])

end
