(* ===== verification/Bpe.thy ===== *)
theory Bpe
  imports Tokenizer
begin

section \<open>Byte-pair encoding of one pre-token\<close>

text \<open>
  \<open>applyBPE\<close> of \<open>internal/tokenizer/tokenizer.go\<close>.  \<open>bestScan\<close> is the scan for the
  lowest-ranked adjacent pair, \<open>mergePairs\<close> the rebuilding of the symbol list with every
  occurrence of that pair joined, \<open>bpeLoop\<close> the outer loop and \<open>applyBPE\<close> the whole
  function, returning the ids it appends to \<open>*out\<close>.  The reference they are compared with is
  the step relation \<open>bpe_merge\<close>: join all occurrences of the leftmost best pair.
\<close>

subsection \<open>The code\<close>

text \<open>The key \<open>A + "\x01" + B\<close> of the rank table.\<close>

definition pairKey :: "gostring \<Rightarrow> gostring \<Rightarrow> gostring" where
  "pairKey a b = a @ [CHR 0x01] @ b"

fun bestScan :: "tokenizer \<Rightarrow> gostring list \<Rightarrow> nat \<Rightarrow> int \<Rightarrow> int \<Rightarrow> int \<times> int" where
  "bestScan t (a # b # rest) i bestRank bestI =
     (case mergeRank t (pairKey a b) of
        Some r \<Rightarrow> if r < bestRank then bestScan t (b # rest) (i + 1) r (int i)
                  else bestScan t (b # rest) (i + 1) bestRank bestI
      | None \<Rightarrow> bestScan t (b # rest) (i + 1) bestRank bestI)"
| "bestScan t _ i bestRank bestI = (bestRank, bestI)"

fun mergePairs :: "gostring \<Rightarrow> gostring \<Rightarrow> gostring list \<Rightarrow> gostring list" where
  "mergePairs a b (x # y # rest) =
     (if x = a \<and> y = b then (a @ b) # mergePairs a b rest
      else x # mergePairs a b (y # rest))"
| "mergePairs a b xs = xs"

text \<open>The rank the code would look up at position \<open>k\<close>.\<close>

definition rankAt :: "tokenizer \<Rightarrow> gostring list \<Rightarrow> nat \<Rightarrow> int option" where
  "rankAt t xs k = (if k + 1 < length xs then mergeRank t (pairKey (xs ! k) (xs ! (k + 1))) else None)"

lemma rankAt_Nil [simp]: "rankAt t [] k = None" and rankAt_one [simp]: "rankAt t [x] k = None"
  by (simp_all add: rankAt_def)

lemma rankAt_0: "rankAt t (a # b # xs) 0 = mergeRank t (pairKey a b)"
  and rankAt_Suc: "rankAt t (a # xs) (Suc k) = rankAt t xs k"
  by (simp_all add: rankAt_def)

definition bestPair :: "tokenizer \<Rightarrow> gostring list \<Rightarrow> int \<Rightarrow> nat \<Rightarrow> bool" where
  "bestPair t xs r k =
     (rankAt t xs k = Some r \<and>
      (\<forall>k' r'. rankAt t xs k' = Some r' \<longrightarrow> r \<le> r' \<and> (k' < k \<longrightarrow> r < r')))"

lemma all_ranks_Cons:
  "(\<forall>k r. rankAt t (a # b # xs) k = Some r \<longrightarrow> P k r) \<longleftrightarrow>
     (\<forall>r. mergeRank t (pairKey a b) = Some r \<longrightarrow> P 0 r) \<and>
     (\<forall>k r. rankAt t (b # xs) k = Some r \<longrightarrow> P (Suc k) r)"
proof -
  have all: "(\<forall>k::nat. Q k) \<longleftrightarrow> Q 0 \<and> (\<forall>k. Q (Suc k))" for Q
    by (auto intro: nat.induct [of Q])
  show ?thesis by (subst all) (simp add: rankAt_0 rankAt_Suc)
qed

lemma bestPair_Cons:
  "bestPair t (a # b # xs) r (Suc k) \<longleftrightarrow>
     bestPair t (b # xs) r k \<and> (\<forall>r'. mergeRank t (pairKey a b) = Some r' \<longrightarrow> r < r')"
  unfolding bestPair_def all_ranks_Cons by (auto simp: rankAt_Suc)

lemma bestPair_hd:
  "bestPair t (a # b # xs) r 0 \<longleftrightarrow>
     mergeRank t (pairKey a b) = Some r \<and> (\<forall>k r'. rankAt t (b # xs) k = Some r' \<longrightarrow> r \<le> r')"
  unfolding bestPair_def all_ranks_Cons by (auto simp: rankAt_0)

text \<open>
  The scan either finds nothing below the bound it starts from, or the leftmost pair of
  least rank.
\<close>

definition scanResult :: "tokenizer \<Rightarrow> gostring list \<Rightarrow> nat \<Rightarrow> int \<Rightarrow> int \<Rightarrow> int \<times> int \<Rightarrow> bool" where
  "scanResult t xs i br bi res =
     (res = (br, bi) \<and> (\<forall>k r. rankAt t xs k = Some r \<longrightarrow> br \<le> r) \<or>
      (\<exists>k. snd res = int (i + k) \<and> fst res < br \<and> bestPair t xs (fst res) k))"

lemma scanResult_keep:
  assumes "scanResult t (b # xs) (i + 1) br bi res"
    and "\<And>r. mergeRank t (pairKey a b) = Some r \<Longrightarrow> br \<le> r"
  shows "scanResult t (a # b # xs) i br bi res"
  using assms(1) unfolding scanResult_def all_ranks_Cons
proof (elim disjE exE conjE)
  fix k assume "snd res = int (i + 1 + k)" "fst res < br" "bestPair t (b # xs) (fst res) k"
  with assms(2) have "snd res = int (i + Suc k) \<and> fst res < br \<and> bestPair t (a # b # xs) (fst res) (Suc k)"
    by (force simp: bestPair_Cons)
  then show "res = (br, bi) \<and> (\<forall>r. mergeRank t (pairKey a b) = Some r \<longrightarrow> br \<le> r) \<and>
      (\<forall>k r. rankAt t (b # xs) k = Some r \<longrightarrow> br \<le> r) \<or>
      (\<exists>k. snd res = int (i + k) \<and> fst res < br \<and> bestPair t (a # b # xs) (fst res) k)" by blast
qed (use assms(2) in blast)

lemma scanResult_take:
  assumes "scanResult t (b # xs) (i + 1) r0 (int i) res"
    and "mergeRank t (pairKey a b) = Some r0" "r0 < br"
  shows "scanResult t (a # b # xs) i br bi res"
  using assms(1) unfolding scanResult_def [of t "b # xs"]
proof (elim disjE exE conjE)
  assume "res = (r0, int i)" "\<forall>k r. rankAt t (b # xs) k = Some r \<longrightarrow> r0 \<le> r"
  with assms(2,3) have "snd res = int (i + 0) \<and> fst res < br \<and> bestPair t (a # b # xs) (fst res) 0"
    by (simp add: bestPair_hd)
  then show ?thesis unfolding scanResult_def by blast
next
  fix k assume "snd res = int (i + 1 + k)" "fst res < r0" "bestPair t (b # xs) (fst res) k"
  with assms(2,3) have "snd res = int (i + Suc k) \<and> fst res < br \<and> bestPair t (a # b # xs) (fst res) (Suc k)"
    by (simp add: bestPair_Cons)
  then show ?thesis unfolding scanResult_def by blast
qed

lemma bestScan_spec: "scanResult t xs i br bi (bestScan t xs i br bi)"
proof (induction t xs i br bi rule: bestScan.induct)
  case (1 t a b rest i br bi)
  show ?case
  proof (cases "\<exists>r0. mergeRank t (pairKey a b) = Some r0 \<and> r0 < br")
    case True
    then obtain r0 where r0: "mergeRank t (pairKey a b) = Some r0" "r0 < br" by blast
    from scanResult_take [OF "1.IH"(2) [OF r0] r0] r0 show ?thesis by simp
  next
    case False
    then have "scanResult t (b # rest) (i + 1) br bi (bestScan t (b # rest) (i + 1) br bi)"
      using "1.IH"(1,3) by (cases "mergeRank t (pairKey a b)") auto
    from scanResult_keep [OF this, of a] False show ?thesis
      by (fastforce split: option.splits)
  qed
qed (simp_all add: scanResult_def)

lemma mergePairs_length: "length (mergePairs a b xs) \<le> length xs"
  by (induction a b xs rule: mergePairs.induct) auto

lemma mergePairs_shrinks [progress]:
  "k + 1 < length xs \<Longrightarrow> xs ! k = a \<Longrightarrow> xs ! (k + 1) = b \<Longrightarrow>
   length (mergePairs a b xs) < length xs"
proof (induction a b xs arbitrary: k rule: mergePairs.induct)
  case (1 a b x y rest)
  show ?case
  proof (cases "x = a \<and> y = b")
    case True
    then show ?thesis using mergePairs_length [of a b rest] by simp
  next
    case False
    with "1.prems" obtain k' where "k = Suc k'" by (cases k) auto
    with "1.IH"(2) [OF False, of k'] "1.prems" False show ?thesis by auto
  qed
qed auto

function bpeLoop :: "tokenizer \<Rightarrow> gostring list \<Rightarrow> gostring list" where
  "bpeLoop t syms =
     (if 2 \<le> length syms then
        let (bestRank, bestI) = bestScan t syms 0 MaxInt (- 1) in
        if bestI < 0 then syms
        else bpeLoop t (mergePairs (syms ! nat bestI) (syms ! (nat bestI + 1)) syms)
      else syms)"
  by pat_completeness auto
termination
proof (relation "measure (\<lambda>(t, syms). length syms)", goal_cases)
  case (2 t syms p r j)
  then have "bestScan t syms 0 MaxInt (- 1) = (r, j)" "0 \<le> j" by auto
  with bestScan_spec [of t syms 0 MaxInt "- 1"]
  obtain k where "j = int k" "bestPair t syms r k" by (auto simp: scanResult_def)
  then have "k + 1 < length syms" by (auto simp: bestPair_def rankAt_def split: if_splits)
  then show ?case using mergePairs_shrinks [of k syms] \<open>j = int k\<close> by simp
qed simp

declare bpeLoop.simps [simp del]

definition applyBPE :: "tokenizer \<Rightarrow> gostring \<Rightarrow> int list" where
  "applyBPE t word =
     (let syms = map (byteToSym t) word in
      if length syms = 0 then []
      else List.map_filter (tokToID t) (bpeLoop t syms))"

subsection \<open>What the loop computes\<close>

text \<open>
  One round of textbook byte-pair encoding, as a relation: some position holds the leftmost
  pair of least rank, and every occurrence of that pair is joined from left to right.
\<close>

inductive bpe_merge :: "tokenizer \<Rightarrow> gostring list \<Rightarrow> gostring list \<Rightarrow> bool" for t where
  merge: "bestPair t xs r k \<Longrightarrow> r < MaxInt \<Longrightarrow>
     bpe_merge t xs (mergePairs (xs ! k) (xs ! (k + 1)) xs)"

inductive_cases bpe_mergeE: "bpe_merge t xs ys"

lemma bestPair_unique: "bestPair t xs r k \<Longrightarrow> bestPair t xs r' k' \<Longrightarrow> r = r' \<and> k = k'"
  unfolding bestPair_def by (metis nat_neq_iff order_antisym order_less_irrefl)

lemma bpe_merge_deterministic: "bpe_merge t xs ys \<Longrightarrow> bpe_merge t xs zs \<Longrightarrow> ys = zs"
  by (auto elim!: bpe_mergeE dest: bestPair_unique)

lemma bestPair_bound: "bestPair t xs r k \<Longrightarrow> k + 1 < length xs"
  by (auto simp: bestPair_def rankAt_def split: if_splits)

lemma bestScan_cases:
  obtains (none) "snd (bestScan t xs 0 MaxInt (- 1)) < 0" "\<And>ys. \<not> bpe_merge t xs ys"
  | (some) k where "snd (bestScan t xs 0 MaxInt (- 1)) = int k" "k + 1 < length xs"
      "bpe_merge t xs (mergePairs (xs ! k) (xs ! (k + 1)) xs)"
proof -
  let ?s = "bestScan t xs 0 MaxInt (- 1)"
  from bestScan_spec [of t xs 0 MaxInt "- 1"]
  consider (a) "?s = (MaxInt, - 1)" "\<forall>k r. rankAt t xs k = Some r \<longrightarrow> MaxInt \<le> r"
    | (b) k where "snd ?s = int k" "fst ?s < MaxInt" "bestPair t xs (fst ?s) k"
    by (auto simp: scanResult_def)
  then show ?thesis
  proof cases
    case a
    then have "\<not> bpe_merge t xs ys" for ys
      by (fastforce elim!: bpe_mergeE simp: bestPair_def)
    with a none show ?thesis by simp
  next
    case b
    then show ?thesis using some bestPair_bound [OF b(3)] bpe_merge.merge [OF b(3,2)] by blast
  qed
qed

lemma bpeLoop_unfold:
  "bpeLoop t xs = (if snd (bestScan t xs 0 MaxInt (- 1)) < 0 then xs
     else bpeLoop t (mergePairs (xs ! nat (snd (bestScan t xs 0 MaxInt (- 1))))
            (xs ! (nat (snd (bestScan t xs 0 MaxInt (- 1))) + 1)) xs))"
  by (rule bestScan_cases [of t xs]; subst bpeLoop.simps) (auto simp: case_prod_unfold Let_def)

text \<open>The loop runs the relation to its end, and the end is the only normal form.\<close>

lemma bpeLoop_merges:
  "(bpe_merge t)\<^sup>*\<^sup>* xs (bpeLoop t xs) \<and> (\<nexists>ys. bpe_merge t (bpeLoop t xs) ys)"
proof (induction "length xs" arbitrary: xs rule: less_induct)
  case less
  show ?case
  proof (rule bestScan_cases [of t xs])
    assume "snd (bestScan t xs 0 MaxInt (- 1)) < 0" and stop: "\<And>ys. \<not> bpe_merge t xs ys"
    then have "bpeLoop t xs = xs" by (subst bpeLoop_unfold) simp
    with stop show ?thesis by simp
  next
    fix k let ?ys = "mergePairs (xs ! k) (xs ! (k + 1)) xs"
    assume k: "snd (bestScan t xs 0 MaxInt (- 1)) = int k" "k + 1 < length xs" "bpe_merge t xs ?ys"
    have "bpeLoop t xs = bpeLoop t ?ys" using k(1) by (subst bpeLoop_unfold) simp
    moreover have "length ?ys < length xs" using k(2) by (rule mergePairs_shrinks) simp_all
    ultimately show ?thesis using less.hyps [of ?ys] k(3)
      by (auto intro: converse_rtranclp_into_rtranclp)
  qed
qed

lemma bpe_normal_form_unique:
  assumes "(bpe_merge t)\<^sup>*\<^sup>* xs ys" "\<nexists>zs. bpe_merge t ys zs"
    and "(bpe_merge t)\<^sup>*\<^sup>* xs ys'" "\<nexists>zs. bpe_merge t ys' zs"
  shows "ys = ys'"
  using assms
proof (induction arbitrary: ys' rule: converse_rtranclp_induct)
  case base
  then show ?case by (auto elim: converse_rtranclpE)
next
  case (step x z)
  from step.prems(2) show ?case
    using step.hyps(1) step.IH step.prems bpe_merge_deterministic
    by (metis converse_rtranclpE)
qed

text \<open>Anything every merge keeps is kept by the loop.\<close>

lemma bpeLoop_invariant:
  assumes "P xs" and "\<And>xs r k. P xs \<Longrightarrow> bestPair t xs r k \<Longrightarrow> P (mergePairs (xs ! k) (xs ! (k + 1)) xs)"
  shows "P (bpeLoop t xs)"
proof -
  have "(bpe_merge t)\<^sup>*\<^sup>* xs (bpeLoop t xs)" using bpeLoop_merges by blast
  then show ?thesis
    by (induction rule: rtranclp_induct) (auto intro: assms(1) assms(2) [simplified] elim!: bpe_mergeE)
qed

lemma mergePairs_concat [simp]: "concat (mergePairs a b xs) = concat xs"
  by (induction a b xs rule: mergePairs.induct) auto

lemma mergePairs_set: "set (mergePairs a b xs) \<subseteq> insert (a @ b) (set xs)"
  by (induction a b xs rule: mergePairs.induct) auto

lemma bpeLoop_concat: "concat (bpeLoop t xs) = concat xs"
  by (rule bpeLoop_invariant) simp_all

subsection \<open>Lossless pieces\<close>

text \<open>
  A vocabulary is complete when the byte tables are the GPT-2 ones, every byte symbol and every
  merge result has an id, and the id of a symbol-space token decodes to the bytes it spells.
\<close>

definition covers :: "tokenizer \<Rightarrow> bool" where
  "covers t =
     ((\<forall>c. tokToID t (byteToSym t c) \<noteq> None) \<and>
      (\<forall>a b. mergeRank t (pairKey a b) \<noteq> None \<longrightarrow> tokToID t (a @ b) \<noteq> None))"

definition spells :: "tokenizer \<Rightarrow> bool" where
  "spells t =
     (\<forall>w i. tokToID t (symsOf t w) = Some i \<longrightarrow> Decode t [i] = w)"

definition vocab_ok :: "tokenizer \<Rightarrow> bool" where
  "vocab_ok t = (tables_ok t \<and> covers t \<and> spells t)"

text \<open>Every symbol the loop leaves spells some bytes and has an id.\<close>

definition good_syms :: "tokenizer \<Rightarrow> gostring list \<Rightarrow> bool" where
  "good_syms t xs = (\<forall>x \<in> set xs. tokToID t x \<noteq> None \<and> (\<exists>w. x = symsOf t w))"

lemma good_syms_start: "covers t \<Longrightarrow> good_syms t (map (byteToSym t) word)"
  by (auto simp: good_syms_def covers_def intro!: exI [of _ "[_]"] simp: symsOf_def)

lemma good_syms_merge:
  assumes "covers t" "good_syms t xs" "bestPair t xs r k"
  shows "good_syms t (mergePairs (xs ! k) (xs ! (k + 1)) xs)"
proof -
  have k: "k + 1 < length xs" by (rule bestPair_bound [OF assms(3)])
  then have "xs ! k \<in> set xs" "xs ! (k + 1) \<in> set xs" by simp_all
  with assms(2) obtain v w where vw: "xs ! k = symsOf t v" "xs ! (k + 1) = symsOf t w"
    unfolding good_syms_def by blast
  have "mergeRank t (pairKey (xs ! k) (xs ! (k + 1))) \<noteq> None"
    using assms(3) k by (auto simp: bestPair_def rankAt_def)
  with assms(1) have "tokToID t (xs ! k @ xs ! (k + 1)) \<noteq> None" by (simp add: covers_def)
  moreover have "xs ! k @ xs ! (k + 1) = symsOf t (v @ w)" by (simp only: vw symsOf_append)
  ultimately have "tokToID t (xs ! k @ xs ! (k + 1)) \<noteq> None \<and> (\<exists>w. xs ! k @ xs ! (k + 1) = symsOf t w)"
    by blast
  with assms(2) mergePairs_set [of "xs ! k" "xs ! (k + 1)" xs] show ?thesis
    unfolding good_syms_def by blast
qed

lemma good_syms_bpeLoop: "covers t \<Longrightarrow> good_syms t xs \<Longrightarrow> good_syms t (bpeLoop t xs)"
  by (rule bpeLoop_invariant) (simp_all only: good_syms_merge)

lemma Decode_good_syms:
  assumes "tables_ok t" "spells t" "good_syms t xs"
  shows "symsOf t (Decode t (List.map_filter (tokToID t) xs)) = concat xs"
  using assms(3)
proof (induction xs)
  case (Cons x xs)
  then obtain i w where x: "tokToID t x = Some i" "x = symsOf t w" by (auto simp: good_syms_def)
  with assms(2) have "Decode t [i] = w" by (simp add: spells_def)
  moreover have "good_syms t xs" using Cons.prems by (simp add: good_syms_def)
  ultimately show ?case
    using Cons.IH x by (simp add: map_filter_simps Decode_Cons [of t i "List.map_filter (tokToID t) xs"])
qed (simp add: map_filter_simps symsOf_def)

lemma applyBPE_lossless:
  assumes "vocab_ok t"
  shows "Decode t (applyBPE t word) = word"
proof (cases "word = []")
  case False
  let ?xs = "bpeLoop t (map (byteToSym t) word)"
  have ok: "tables_ok t" "covers t" "spells t" using assms by (simp_all add: vocab_ok_def)
  have "good_syms t ?xs" by (rule good_syms_bpeLoop [OF ok(2) good_syms_start [OF ok(2)]])
  from Decode_good_syms [OF ok(1,3) this]
  have "symsOf t (Decode t (List.map_filter (tokToID t) ?xs)) = symsOf t word"
    by (simp add: bpeLoop_concat symsOf_def)
  then show ?thesis using False by (simp add: symsOf_inject [OF ok(1)] applyBPE_def)
qed (simp add: applyBPE_def)

subsection \<open>No two pairs share a key\<close>

lemma EncodeRune_cpOf_bytes: "c \<in> set (EncodeRune (cpOf (bv b))) \<Longrightarrow> 33 \<le> bv c"
  using nonPrintable_le [of "bv b"] bv_less [of b]
  by (auto simp: EncodeRune_def cpOf_def scalar_def printable_def bv_byte Let_def
      simp del: bv_less split: if_splits)

lemma symsOf_no_separator: "tables_ok t \<Longrightarrow> CHR 0x01 \<notin> set (symsOf t w)"
  using EncodeRune_cpOf_bytes [of "CHR 0x01"] by (fastforce simp: symsOf_def tables_upto_def)

lemma pairKey_inject:
  assumes "CHR 0x01 \<notin> set a" "CHR 0x01 \<notin> set a'"
  shows "pairKey a b = pairKey a' b' \<longleftrightarrow> a = a' \<and> b = b'"
  using assms unfolding pairKey_def
  by (auto simp: append_eq_append_conv2 Cons_eq_append_conv append_eq_Cons_conv)

subsection \<open>The merge property\<close>


end
