(* ===== verification/Pretok.thy ===== *)
theory Pretok
  imports Bpe
begin

section \<open>The pre-tokenizer\<close>

text \<open>
  \<open>pretokenizeAndBPE\<close> of \<open>internal/tokenizer/tokenizer.go\<close>: the text is decoded to code
  points with their byte offsets, cut into pieces by the hand-rolled Qwen split, and each piece
  is BPE-encoded.  Every branch of the loop body ends in
  \<open>t.applyBPE(bytesOf(i, j), out); i = j\<close> for some \<open>j\<close>; \<open>pieceEnd\<close> computes that \<open>j\<close>,
  branch by branch in the source's order, and \<open>pretokLoop\<close> is the loop.
\<close>

subsection \<open>Code points and character classes\<close>

text \<open>A code point with its byte offset: the source's \<open>cp\<close> struct.\<close>

type_synonym cp = "rune \<times> nat"

definition decodeCPs :: "gostring \<Rightarrow> cp list" where
  "decodeCPs s = rangeFrom 0 s"

definition isNumber :: "rune \<Rightarrow> bool" where
  "isNumber c = (48 \<le> c \<and> c \<le> 57)"

definition isSpace :: "rune \<Rightarrow> bool" where
  "isSpace c =
     (c \<in> {32, 9, 10, 13, 11, 12, 0x85, 0xA0, 0x1680, 0x2028, 0x2029, 0x202F, 0x205F, 0x3000, 0xFEFF} \<or>
      0x2000 \<le> c \<and> c \<le> 0x200A)"

definition isNewline :: "rune \<Rightarrow> bool" where
  "isNewline c = (c = 10 \<or> c = 13)"

definition isLetter :: "rune \<Rightarrow> bool" where
  "isLetter c = (if 97 \<le> c \<and> c \<le> 122 \<or> 65 \<le> c \<and> c \<le> 90 then True else 0x80 \<le> c \<and> \<not> isSpace c)"

definition isPunct :: "rune \<Rightarrow> bool" where
  "isPunct c = (\<not> isSpace c \<and> \<not> isLetter c \<and> \<not> isNumber c)"

definition lower :: "rune \<Rightarrow> rune" where
  "lower c = (if 65 \<le> c \<and> c \<le> 90 then c + 32 else c)"

subsection \<open>The loop body\<close>

text \<open>\<open>for j < n && p(cps[j].r) { j++ }\<close>\<close>

function scanWhile :: "(rune \<Rightarrow> bool) \<Rightarrow> rune list \<Rightarrow> nat \<Rightarrow> nat" where
  "scanWhile p s j = (if j < length s \<and> p (s ! j) then scanWhile p s (j + 1) else j)"
  by pat_completeness auto
termination
  by (relation "measure (\<lambda>(p, s, j). length s - j)") auto

declare scanWhile.simps [simp del]

text \<open>The whitespace run of branch 5, remembering the last newline (-1 for none).\<close>

function spaceScan :: "rune list \<Rightarrow> nat \<Rightarrow> int \<Rightarrow> nat \<times> int" where
  "spaceScan s j lst =
     (if j < length s \<and> isSpace (s ! j)
      then spaceScan s (j + 1) (if isNewline (s ! j) then int j else lst)
      else (j, lst))"
  by pat_completeness auto
termination
  by (relation "measure (\<lambda>(s, j, lst). length s - j)") auto

declare spaceScan.simps [simp del]

text \<open>Branch 1: the length of a contraction at \<open>i\<close>, 0 when there is none.\<close>

definition contraction :: "rune list \<Rightarrow> nat \<Rightarrow> nat" where
  "contraction s i =
     (if s ! i = 39 \<and> i + 1 < length s then
        let a = lower (s ! (i + 1));
            b = (if i + 2 < length s then lower (s ! (i + 2)) else 0) in
        if a = 115 \<or> a = 116 \<or> a = 109 \<or> a = 100 then 2
        else if a = 114 \<and> b = 101 \<or> a = 118 \<and> b = 101 \<or> a = 108 \<and> b = 108 then 3
        else 0
      else 0)"

definition pieceEnd :: "rune list \<Rightarrow> nat \<Rightarrow> nat" where
  "pieceEnd s i =
     (let n = length s; c = s ! i in
      if 0 < contraction s i then i + contraction s i
      else if isLetter c then scanWhile isLetter s (i + 1)
      else if \<not> isNewline c \<and> \<not> isNumber c \<and> i + 1 < n \<and> isLetter (s ! (i + 1))
      then scanWhile isLetter s (i + 2)
      else if isNumber c then i + 1
      else
        let k = (if c = 32 \<and> i + 1 < n \<and> isPunct (s ! (i + 1)) then i + 1 else i) in
        if isPunct (s ! k) then scanWhile isNewline s (scanWhile isPunct s k)
        else if isSpace c then
          let (j, lst) = spaceScan s i (- 1) in
          if 0 \<le> lst then nat lst + 1
          else if j < n \<and> \<not> isSpace (s ! j) \<and> 2 \<le> j - i then j - 1
          else j
        else i + 1)"

subsection \<open>Progress\<close>

lemma scanWhile_ge: "j \<le> scanWhile p s j"
  by (induction p s j rule: scanWhile.induct) (subst scanWhile.simps, auto)

lemma scanWhile_le: "j \<le> length s \<Longrightarrow> scanWhile p s j \<le> length s"
  by (induction p s j rule: scanWhile.induct) (subst scanWhile.simps, auto)

lemma scanWhile_stop: "\<not> (j < length s \<and> p (s ! j)) \<Longrightarrow> scanWhile p s j = j"
  by (subst scanWhile.simps) auto

lemma scanWhile_go: "j < length s \<Longrightarrow> p (s ! j) \<Longrightarrow> scanWhile p s j = scanWhile p s (j + 1)"
  by (subst scanWhile.simps) simp

lemma scanWhile_run: "j \<le> k \<Longrightarrow> k < scanWhile p s j \<Longrightarrow> p (s ! k) \<and> k < length s"
proof (induction p s j rule: scanWhile.induct)
  case (1 p s j)
  then show ?case
    by (cases "j < length s \<and> p (s ! j)"; cases "k = j")
      (auto simp: scanWhile_stop scanWhile_go)
qed

lemma scanWhile_end: "scanWhile p s j < length s \<Longrightarrow> \<not> p (s ! scanWhile p s j)"
proof (induction p s j rule: scanWhile.induct)
  case (1 p s j)
  then show ?case
    by (cases "j < length s \<and> p (s ! j)") (auto simp: scanWhile_stop scanWhile_go)
qed

lemma scanWhile_less: "j < length s \<Longrightarrow> p (s ! j) \<Longrightarrow> j < scanWhile p s j"
  using scanWhile_ge [of "j + 1" p s] by (simp add: scanWhile_go)

text \<open>The whitespace scan in terms of the plain scan and of the newlines in the run.\<close>

lemma spaceScan_fst: "fst (spaceScan s j l) = scanWhile isSpace s j"
  by (induction s j l rule: spaceScan.induct)
    (subst spaceScan.simps, auto simp: scanWhile_go scanWhile_stop)

lemma spaceScan_snd:
  "snd (spaceScan s j l) = l \<and> (\<forall>k. j \<le> k \<and> k < scanWhile isSpace s j \<longrightarrow> \<not> isNewline (s ! k)) \<or>
   (\<exists>m. snd (spaceScan s j l) = int m \<and> j \<le> m \<and> m < scanWhile isSpace s j \<and> isNewline (s ! m) \<and>
        (\<forall>k. m < k \<and> k < scanWhile isSpace s j \<longrightarrow> \<not> isNewline (s ! k)))"
  (is "?P j l")
proof (induction s j l rule: spaceScan.induct)
  case (1 s j l)
  show ?case
  proof (cases "j < length s \<and> isSpace (s ! j)")
    case True
    let ?l = "if isNewline (s ! j) then int j else l"
    have eq: "spaceScan s j l = spaceScan s (j + 1) ?l" "scanWhile isSpace s j = scanWhile isSpace s (j + 1)"
      using True by (simp_all add: spaceScan.simps [of s j l] scanWhile_go)
    from "1.IH" [OF True] show ?thesis
    proof (elim disjE exE conjE)
      fix m assume "snd (spaceScan s (j + 1) ?l) = int m" "j + 1 \<le> m" "m < scanWhile isSpace s (j + 1)"
        "isNewline (s ! m)" "\<forall>k. m < k \<and> k < scanWhile isSpace s (j + 1) \<longrightarrow> \<not> isNewline (s ! k)"
      then show ?thesis unfolding eq by (intro disjI2 exI [of _ m]) simp
    next
      assume *: "snd (spaceScan s (j + 1) ?l) = ?l"
        "\<forall>k. j + 1 \<le> k \<and> k < scanWhile isSpace s (j + 1) \<longrightarrow> \<not> isNewline (s ! k)"
      show ?thesis
      proof (cases "isNewline (s ! j)")
        case True
        then show ?thesis unfolding eq using * scanWhile_ge [of "j + 1" isSpace s]
          by (intro disjI2 exI [of _ j]) auto
      next
        case False
        then show ?thesis unfolding eq using *
          by (intro disjI1) (metis Suc_eq_plus1 Suc_leI le_neq_implies_less)
      qed
    qed
  next
    case False
    then show ?thesis by (subst spaceScan.simps) (auto simp: scanWhile_stop)
  qed
qed

lemma contraction_bound: "i < length s \<Longrightarrow> i + contraction s i \<le> length s"
  by (auto simp: contraction_def Let_def)

lemma newline_isSpace: "isNewline c \<Longrightarrow> isSpace c"
  by (auto simp: isNewline_def isSpace_def)

lemma letter_not_space: "isLetter c \<Longrightarrow> \<not> isSpace c"
  by (auto simp: isLetter_def isSpace_def split: if_splits)

lemma number_not_space: "isNumber c \<Longrightarrow> \<not> isSpace c"
  by (auto simp: isNumber_def isSpace_def)

lemma number_not_letter: "isNumber c \<Longrightarrow> \<not> isLetter c"
  by (auto simp: isNumber_def isLetter_def)

lemma class_cases:
  obtains "isLetter c" | "isNumber c" | "isSpace c" | "isPunct c"
  by (auto simp: isPunct_def)

text \<open>The whitespace branch on its own, in terms of the plain scan.\<close>

definition spaceEnd :: "rune list \<Rightarrow> nat \<Rightarrow> nat" where
  "spaceEnd s i =
     (let (j, lst) = spaceScan s i (- 1) in
      if 0 \<le> lst then nat lst + 1
      else if j < length s \<and> \<not> isSpace (s ! j) \<and> 2 \<le> j - i then j - 1
      else j)"

lemma spaceEnd_cases:
  assumes "i < length s" "isSpace (s ! i)"
  defines "e \<equiv> scanWhile isSpace s i"
  obtains (newline) m where "spaceEnd s i = m + 1" "i \<le> m" "m < e" "isNewline (s ! m)"
      "\<And>k. m < k \<Longrightarrow> k < e \<Longrightarrow> \<not> isNewline (s ! k)"
  | (leave) "spaceEnd s i = e - 1" "i + 2 \<le> e" "e < length s"
      "\<And>k. i \<le> k \<Longrightarrow> k < e \<Longrightarrow> \<not> isNewline (s ! k)"
  | (all) "spaceEnd s i = e" "e = length s \<or> e = i + 1"
      "\<And>k. i \<le> k \<Longrightarrow> k < e \<Longrightarrow> \<not> isNewline (s ! k)"
proof -
  have e: "i < e" "e \<le> length s"
    unfolding e_def using assms(1,2) by (simp_all add: scanWhile_less scanWhile_le)
  have stop: "e < length s \<Longrightarrow> \<not> isSpace (s ! e)"
    unfolding e_def by (rule scanWhile_end)
  have eq: "spaceEnd s i = (if 0 \<le> snd (spaceScan s i (- 1)) then nat (snd (spaceScan s i (- 1))) + 1
      else if e < length s \<and> \<not> isSpace (s ! e) \<and> 2 \<le> e - i then e - 1 else e)"
    unfolding spaceEnd_def e_def by (simp add: case_prod_unfold Let_def spaceScan_fst)
  from spaceScan_snd [of s i "- 1"] show ?thesis
  proof (elim disjE exE conjE)
    fix m assume "snd (spaceScan s i (- 1)) = int m" "i \<le> m" "m < scanWhile isSpace s i"
      "isNewline (s ! m)" "\<forall>k. m < k \<and> k < scanWhile isSpace s i \<longrightarrow> \<not> isNewline (s ! k)"
    then show ?thesis using newline [of m] eq by (simp add: e_def)
  next
    assume *: "snd (spaceScan s i (- 1)) = - 1"
      "\<forall>k. i \<le> k \<and> k < scanWhile isSpace s i \<longrightarrow> \<not> isNewline (s ! k)"
    then have none: "\<And>k. i \<le> k \<Longrightarrow> k < e \<Longrightarrow> \<not> isNewline (s ! k)" by (simp add: e_def)
    show ?thesis
    proof (cases "e < length s \<and> 2 \<le> e - i")
      case True
      then show ?thesis using leave none eq * stop by auto
    next
      case False
      then have "spaceEnd s i = e" using eq * by auto
      moreover have "e = length s \<or> e = i + 1" using False e by auto
      ultimately show ?thesis using all none by blast
    qed
  qed
qed

lemma pieceEnd_eq:
  "pieceEnd s i =
     (if 0 < contraction s i then i + contraction s i
      else if isLetter (s ! i) then scanWhile isLetter s (i + 1)
      else if \<not> isNewline (s ! i) \<and> \<not> isNumber (s ! i) \<and> i + 1 < length s \<and> isLetter (s ! (i + 1))
      then scanWhile isLetter s (i + 2)
      else if isNumber (s ! i) then i + 1
      else if s ! i = 32 \<and> i + 1 < length s \<and> isPunct (s ! (i + 1))
      then scanWhile isNewline s (scanWhile isPunct s (i + 1))
      else if isPunct (s ! i) then scanWhile isNewline s (scanWhile isPunct s i)
      else if isSpace (s ! i) then spaceEnd s i
      else i + 1)"
  unfolding pieceEnd_def spaceEnd_def by (simp add: Let_def)

lemma spaceEnd_progress:
  assumes "i < length s" "isSpace (s ! i)"
  shows "i < spaceEnd s i \<and> spaceEnd s i \<le> length s"
  using scanWhile_less [of i s isSpace] scanWhile_le [of i s isSpace] assms
  by (rule_tac spaceEnd_cases [OF assms]) auto

lemma scanTwice:
  assumes "i < length s" "p (s ! i)"
  shows "i < scanWhile q s (scanWhile p s i) \<and> scanWhile q s (scanWhile p s i) \<le> length s"
  using scanWhile_less [of i s p, OF assms] scanWhile_le [of i s p] assms(1)
    scanWhile_ge [of "scanWhile p s i" q s] scanWhile_le [of "scanWhile p s i" s q] by simp

lemma pieceEnd_progress [progress]:
  assumes "i < length s"
  shows "i < pieceEnd s i \<and> pieceEnd s i \<le> length s"
  using assms contraction_bound [OF assms] spaceEnd_progress [OF assms]
    scanWhile_ge [of "i + 1" isLetter s] scanWhile_le [of "i + 1" s isLetter]
    scanWhile_ge [of "i + 2" isLetter s] scanWhile_le [of "i + 2" s isLetter]
    scanTwice [of i s isPunct isNewline] scanTwice [of "i + 1" s isPunct isNewline]
  by (auto simp: pieceEnd_eq)

subsection \<open>The loop\<close>

definition bytesOf :: "gostring \<Rightarrow> cp list \<Rightarrow> nat \<Rightarrow> nat \<Rightarrow> gostring" where
  "bytesOf tx cps a b =
     (let bo = snd (cps ! a);
          eo = (if b < length cps then snd (cps ! b) else length tx) in
      take (eo - bo) (drop bo tx))"

function pretokLoop :: "tokenizer \<Rightarrow> gostring \<Rightarrow> cp list \<Rightarrow> nat \<Rightarrow> int list" where
  "pretokLoop t tx cps i =
     (if i < length cps then
        applyBPE t (bytesOf tx cps i (pieceEnd (map fst cps) i))
          @ pretokLoop t tx cps (pieceEnd (map fst cps) i)
      else [])"
  by pat_completeness auto
termination
proof (relation "measure (\<lambda>(t, tx, cps, i). length cps - i)", goal_cases)
  case (2 t tx cps i)
  then show ?case using pieceEnd_progress [of i "map fst cps"] by auto
qed simp

declare pretokLoop.simps [simp del]

definition pretokenizeAndBPE :: "tokenizer \<Rightarrow> gostring \<Rightarrow> int list" where
  "pretokenizeAndBPE t tx = pretokLoop t tx (decodeCPs tx) 0"

text \<open>The pieces the loop hands to \<open>applyBPE\<close>, from code point \<open>i\<close> on.\<close>

function pieces :: "gostring \<Rightarrow> cp list \<Rightarrow> nat \<Rightarrow> gostring list" where
  "pieces tx cps i =
     (if i < length cps then
        bytesOf tx cps i (pieceEnd (map fst cps) i) # pieces tx cps (pieceEnd (map fst cps) i)
      else [])"
  by pat_completeness auto
termination
proof (relation "measure (\<lambda>(tx, cps, i). length cps - i)", goal_cases)
  case (2 tx cps i)
  then show ?case using pieceEnd_progress [of i "map fst cps"] by auto
qed simp

declare pieces.simps [simp del]

lemma pretokLoop_pieces: "pretokLoop t tx cps i = concat (map (applyBPE t) (pieces tx cps i))"
  by (induction tx cps i rule: pieces.induct)
    (subst pieces.simps, subst pretokLoop.simps, simp)

subsection \<open>No byte is lost\<close>

text \<open>The byte offset of code point \<open>i\<close>, the end of the text past the last one.\<close>

definition offAt :: "gostring \<Rightarrow> cp list \<Rightarrow> nat \<Rightarrow> nat" where
  "offAt tx cps i = (if i < length cps then snd (cps ! i) else length tx)"

lemma offAt_mono:
  assumes "i < j"
  shows "offAt tx (decodeCPs tx) i \<le> offAt tx (decodeCPs tx) j"
    and "i < length (decodeCPs tx) \<Longrightarrow> offAt tx (decodeCPs tx) i < offAt tx (decodeCPs tx) j"
proof -
  let ?o = "map snd (decodeCPs tx)"
  have o: "sorted_wrt (<) ?o" "\<forall>x \<in> set ?o. x < length tx"
    using rangeFrom_offsets [of 0 tx] by (simp_all add: decodeCPs_def)
  show lt: "offAt tx (decodeCPs tx) i < offAt tx (decodeCPs tx) j"
    if "i < length (decodeCPs tx)"
    using that o assms sorted_wrt_nth_less [OF o(1), of i j] by (auto simp: offAt_def)
  then show "offAt tx (decodeCPs tx) i \<le> offAt tx (decodeCPs tx) j"
    using assms by (cases "i < length (decodeCPs tx)") (auto simp: offAt_def)
qed

lemma bytesOf_offAt:
  "a < length cps \<Longrightarrow> bytesOf tx cps a b = take (offAt tx cps b - offAt tx cps a) (drop (offAt tx cps a) tx)"
  by (simp add: bytesOf_def offAt_def Let_def)

lemma offAt_le: "offAt tx (decodeCPs tx) i \<le> length tx"
  using offAt_mono(1) [of i "max (Suc i) (length (decodeCPs tx))" tx]
  by (simp add: offAt_def split: if_splits)

lemma pieces_concat_from:
  "cps = decodeCPs tx \<Longrightarrow> concat (pieces tx cps i) = drop (offAt tx cps i) tx"
proof (induction tx cps i rule: pieces.induct)
  case (1 tx cps i)
  show ?case
  proof (cases "i < length cps")
    case True
    let ?j = "pieceEnd (map fst cps) i"
    have "i < ?j" using pieceEnd_progress [of i "map fst cps"] True by simp
    then have "offAt tx cps i \<le> offAt tx cps ?j"
      using offAt_mono(1) [of i ?j tx] "1.prems" by simp
    then show ?thesis using "1.IH" [OF True "1.prems"] True
      by (subst pieces.simps) (simp add: bytesOf_offAt take_drop_split)
  next
    case False
    then show ?thesis by (subst pieces.simps) (simp add: offAt_def)
  qed
qed

lemma pieces_nonempty:
  "cps = decodeCPs tx \<Longrightarrow> list_all (\<lambda>p. p \<noteq> []) (pieces tx cps i)"
proof (induction tx cps i rule: pieces.induct)
  case (1 tx cps i)
  show ?case
  proof (cases "i < length cps")
    case True
    let ?j = "pieceEnd (map fst cps) i"
    have "i < ?j" using pieceEnd_progress [of i "map fst cps"] True by simp
    then have "offAt tx cps i < offAt tx cps ?j" "offAt tx cps ?j \<le> length tx"
      using offAt_mono(2) [of i ?j tx] offAt_le [of tx ?j] "1.prems" True by simp_all
    then show ?thesis using "1.IH" [OF True "1.prems"] True
      by (subst pieces.simps) (simp add: bytesOf_offAt)
  qed (subst pieces.simps, simp)
qed

lemma offAt_0: "offAt tx (decodeCPs tx) 0 = 0"
  by (cases "tx = []") (simp_all add: offAt_def decodeCPs_def rangeFrom_hd)

lemma pieces_concat: "concat (pieces tx (decodeCPs tx) 0) = tx"
  by (simp add: pieces_concat_from offAt_0)

subsection \<open>The partition property\<close>

text \<open>
  C14: the pre-tokenizer hands \<open>applyBPE\<close> non-empty pieces of the text that
  concatenate to the text, in order: no byte is dropped, duplicated or reordered, also for text
  that is not well-formed UTF-8.
\<close>

theorem pieces_partition:
  "pretokenizeAndBPE t tx = concat (map (applyBPE t) (pieces tx (decodeCPs tx) 0)) \<and>
   concat (pieces tx (decodeCPs tx) 0) = tx \<and>
   list_all (\<lambda>p. p \<noteq> []) (pieces tx (decodeCPs tx) 0)"
  by (simp add: pretokenizeAndBPE_def pretokLoop_pieces pieces_concat pieces_nonempty)

end
