(* ===== verification/PretokSpec.thy ===== *)
theory PretokSpec
  imports Pretok
begin

section \<open>The split as a regular expression\<close>

text \<open>
  The reference the hand-rolled split is compared with: a backtracking matcher for the fragment
  of regular expressions the Qwen pre-tokenizer pattern uses (ordered alternatives, greedy
  repetition of a class, an optional part, one negative lookahead), and the pattern itself,
  written from the comments of \<open>pretokenizeAndBPE\<close> over the code's own character classes.
  \<open>ends\<close> lists the positions at which a match from \<open>i\<close> can end, in the order a backtracking
  engine tries them, so the match it reports is the first.
\<close>

datatype rx =
    Cls "rune \<Rightarrow> bool"
  | Many "rune \<Rightarrow> bool"
  | Sq rx rx
  | Alt rx rx
  | Opt rx
  | NotNext "rune \<Rightarrow> bool"

fun ends :: "rx \<Rightarrow> rune list \<Rightarrow> nat \<Rightarrow> nat list" where
  "ends (Cls p) s i = (if i < length s \<and> p (s ! i) then [i + 1] else [])"
| "ends (Many p) s i = rev [i..<scanWhile p s i + 1]"
| "ends (Sq a b) s i = concat (map (ends b s) (ends a s i))"
| "ends (Alt a b) s i = ends a s i @ ends b s i"
| "ends (Opt a) s i = ends a s i @ [i]"
| "ends (NotNext p) s i = (if i < length s \<and> p (s ! i) then [] else [i])"

fun firstOf :: "nat list \<Rightarrow> nat option" where
  "firstOf [] = None"
| "firstOf (x # _) = Some x"

definition firstMatch :: "rx \<Rightarrow> rune list \<Rightarrow> nat \<Rightarrow> nat option" where
  "firstMatch r s i = firstOf (ends r s i)"

definition Plus :: "(rune \<Rightarrow> bool) \<Rightarrow> rx" where
  "Plus p = Sq (Cls p) (Many p)"

text \<open>A character, case-insensitively.\<close>

definition ci :: "rune \<Rightarrow> rune \<Rightarrow> bool" where
  "ci x c = (lower c = x)"

definition rx_contraction :: rx where
  "rx_contraction =
     Sq (Cls (\<lambda>c. c = 39))
       (Alt (Cls (ci 115)) (Alt (Cls (ci 116)) (Alt (Sq (Cls (ci 114)) (Cls (ci 101)))
         (Alt (Sq (Cls (ci 118)) (Cls (ci 101))) (Alt (Cls (ci 109))
           (Alt (Sq (Cls (ci 108)) (Cls (ci 108))) (Cls (ci 100))))))))"

definition rx_word :: rx where
  "rx_word = Sq (Opt (Cls (\<lambda>c. \<not> isNewline c \<and> \<not> isLetter c \<and> \<not> isNumber c))) (Plus isLetter)"

definition rx_number :: rx where
  "rx_number = Cls isNumber"

definition rx_punct :: rx where
  "rx_punct = Sq (Opt (Cls (\<lambda>c. c = 32))) (Sq (Plus isPunct) (Many isNewline))"

definition rx_newlines :: rx where
  "rx_newlines = Sq (Many isSpace) (Plus isNewline)"

definition rx_spaces :: rx where
  "rx_spaces = Sq (Plus isSpace) (NotNext (\<lambda>c. \<not> isSpace c))"

text \<open>
  \<open>(?i:'s|'t|'re|'ve|'m|'ll|'d) | [^\r\n L N]?L+ | N | ?[^\s L N]+[\r\n]* | \s*[\r\n]+ |
  \s+(?!\S) | \s+\<close>
\<close>

definition qwen_rx :: rx where
  "qwen_rx =
     Alt rx_contraction (Alt rx_word (Alt rx_number (Alt rx_punct
       (Alt rx_newlines (Alt rx_spaces (Plus isSpace))))))"

subsection \<open>First matches\<close>

lemma firstOf_append: "firstOf (xs @ ys) = (case firstOf xs of None \<Rightarrow> firstOf ys | Some x \<Rightarrow> Some x)"
  by (cases xs) auto

lemma firstOf_None: "firstOf xs = None \<longleftrightarrow> xs = []"
  by (cases xs) auto

lemma firstMatch_Alt:
  "firstMatch (Alt a b) s i = (case firstMatch a s i of None \<Rightarrow> firstMatch b s i | Some x \<Rightarrow> Some x)"
  by (simp add: firstMatch_def firstOf_append cong: option.case_cong)

lemma ends_Sq_Cls:
  "ends (Sq (Cls p) b) s i = (if i < length s \<and> p (s ! i) then ends b s (i + 1) else [])"
  by auto

lemma rev_upt_step: "i < j \<Longrightarrow> rev [i..<j] = (j - 1) # rev [i..<j - 1]"
  by (cases j) simp_all

lemma ends_Many: "ends (Many p) s i = scanWhile p s i # rev [i..<scanWhile p s i]"
  using scanWhile_ge [of i p s] by simp

lemma ends_Plus:
  "ends (Plus p) s i =
     (if i < length s \<and> p (s ! i) then rev [i + 1..<scanWhile p s i + 1] else [])"
  by (simp add: Plus_def scanWhile_go)

lemma firstMatch_Plus:
  "firstMatch (Plus p) s i = (if i < length s \<and> p (s ! i) then Some (scanWhile p s i) else None)"
  using scanWhile_less [of i s p] by (auto simp: firstMatch_def ends_Plus rev_upt_step)

text \<open>In a sequence the first position of the left part at which the right part matches wins.\<close>

lemma firstOf_concat_skip:
  "(\<And>x. x \<in> set xs \<Longrightarrow> f x = []) \<Longrightarrow> firstOf (concat (map f (xs @ ys))) = firstOf (concat (map f ys))"
  by (induction xs) auto

lemma firstOf_concat_hit: "f x \<noteq> [] \<Longrightarrow> firstOf (concat (map f (x # ys))) = firstOf (f x)"
  by (cases "f x") auto

lemma rev_upt_split: "i \<le> m \<Longrightarrow> m < j \<Longrightarrow> rev [i..<j] = rev [m + 1..<j] @ m # rev [i..<m]"
proof -
  assume "i \<le> m" "m < j"
  then have "[i..<j] = [i..<m] @ [m] @ [m + 1..<j]"
    using upt_add_eq_append [of i m "j - m"] by (simp add: upt_conv_Cons)
  then show ?thesis by simp
qed

subsection \<open>The alternatives\<close>

lemma first_contraction:
  "i < length s \<Longrightarrow> firstMatch rx_contraction s i =
     (if 0 < contraction s i then Some (i + contraction s i) else None)"
  by (auto simp: firstMatch_def rx_contraction_def contraction_def ci_def Let_def ends_Sq_Cls
      simp del: ends.simps(3))

lemma first_word:
  "i < length s \<Longrightarrow> firstMatch rx_word s i =
     (if isLetter (s ! i) then Some (scanWhile isLetter s i)
      else if \<not> isNewline (s ! i) \<and> \<not> isNumber (s ! i) \<and> i + 1 < length s \<and> isLetter (s ! (i + 1))
      then Some (scanWhile isLetter s (i + 1)) else None)"
  using firstMatch_Plus [of isLetter s i] firstMatch_Plus [of isLetter s "i + 1"]
  by (simp add: firstMatch_def rx_word_def firstOf_append)

lemma firstMatch_punct_run:
  "firstOf (ends (Sq (Plus isPunct) (Many isNewline)) s i) =
     (if i < length s \<and> isPunct (s ! i)
      then Some (scanWhile isNewline s (scanWhile isPunct s i)) else None)"
  using scanWhile_less [of i s isPunct]
  by (auto simp: ends_Plus rev_upt_step ends_Many simp del: ends.simps(2))

lemma first_punct:
  "i < length s \<Longrightarrow> firstMatch rx_punct s i =
     (if s ! i = 32 \<and> i + 1 < length s \<and> isPunct (s ! (i + 1))
      then Some (scanWhile isNewline s (scanWhile isPunct s (i + 1)))
      else if isPunct (s ! i) then Some (scanWhile isNewline s (scanWhile isPunct s i)) else None)"
  using firstMatch_punct_run [of s i] firstMatch_punct_run [of s "i + 1"]
  by (simp add: firstMatch_def rx_punct_def firstOf_append del: ends.simps(2))

text \<open>Whitespace: the three alternatives together compute \<open>spaceEnd\<close>.\<close>

lemma spaceRun:
  assumes "i \<le> k" "k < scanWhile isSpace s i"
  shows "isSpace (s ! k)" "k < length s"
  using scanWhile_run [OF assms] by simp_all

lemma first_newlines_hit:
  assumes "i \<le> m" "m < scanWhile isSpace s i" "isNewline (s ! m)"
    and none: "\<And>k. m < k \<Longrightarrow> k < scanWhile isSpace s i \<Longrightarrow> \<not> isNewline (s ! k)"
  shows "firstMatch rx_newlines s i = Some (m + 1)"
proof -
  let ?e = "scanWhile isSpace s i" and ?f = "ends (Plus isNewline) s"
  have m: "m < length s" using spaceRun [OF assms(1,2)] by simp
  have after: "\<not> (m + 1 < length s \<and> isNewline (s ! (m + 1)))"
  proof (cases "m + 1 < ?e")
    case True
    then show ?thesis using none [of "m + 1"] by simp
  next
    case False
    then have "m + 1 = ?e" using assms(2) by simp
    then show ?thesis using scanWhile_end [of isSpace s i] newline_isSpace by auto
  qed
  have stop: "?f k = []" if "k \<in> set (rev [m + 1..<?e + 1])" for k
  proof -
    from that consider "m < k" "k < ?e" | "k = ?e" by fastforce
    then have "\<not> (k < length s \<and> isNewline (s ! k))"
    proof cases
      case 2
      then show ?thesis using scanWhile_end [of isSpace s i] newline_isSpace by auto
    qed (use none in auto)
    then show ?thesis by (auto simp: ends_Plus)
  qed
  have hit: "firstOf (?f m) = Some (m + 1)"
    using m assms(3) after by (simp add: ends_Plus scanWhile_go scanWhile_stop)
  then have "?f m \<noteq> []" by auto
  have "ends (Many isSpace) s i = rev [m + 1..<?e + 1] @ m # rev [i..<m]"
    using rev_upt_split [of i m "?e + 1"] assms(1,2) by simp
  then have "firstMatch rx_newlines s i = firstOf (concat (map ?f (m # rev [i..<m])))"
    unfolding firstMatch_def rx_newlines_def ends.simps(3)
    by (simp only: firstOf_concat_skip [of "rev [m + 1..<?e + 1]" ?f, OF stop])
  also have "\<dots> = Some (m + 1)"
    by (simp only: firstOf_concat_hit [of ?f m, OF \<open>?f m \<noteq> []\<close>] hit)
  finally show ?thesis .
qed

lemma first_newlines_miss:
  assumes none: "\<And>k. i \<le> k \<Longrightarrow> k < scanWhile isSpace s i \<Longrightarrow> \<not> isNewline (s ! k)"
  shows "firstMatch rx_newlines s i = None"
proof -
  let ?e = "scanWhile isSpace s i"
  have "ends (Plus isNewline) s k = []" if "i \<le> k" "k \<le> ?e" for k
  proof -
    from that consider "k < ?e" | "k = ?e" by fastforce
    then have "\<not> (k < length s \<and> isNewline (s ! k))"
    proof cases
      case 2
      then show ?thesis using scanWhile_end [of isSpace s i] newline_isSpace by auto
    qed (use none that in auto)
    then show ?thesis by (auto simp: ends_Plus)
  qed
  then show ?thesis by (auto simp: firstMatch_def rx_newlines_def firstOf_None)
qed

lemma ends_spaces:
  assumes "i < length s" "isSpace (s ! i)"
  shows "firstMatch rx_spaces s i =
     (if scanWhile isSpace s i = length s then Some (length s)
      else if i + 2 \<le> scanWhile isSpace s i then Some (scanWhile isSpace s i - 1) else None)"
proof -
  let ?e = "scanWhile isSpace s i" and ?f = "ends (NotNext (\<lambda>c. \<not> isSpace c)) s"
  have e: "i < ?e" "?e \<le> length s"
    using assms by (simp_all add: scanWhile_less scanWhile_le)
  have eq: "firstMatch rx_spaces s i = firstOf (concat (map ?f (?e # rev [i + 1..<?e])))"
    using assms e unfolding firstMatch_def rx_spaces_def ends.simps(3)
    by (simp only: ends_Plus rev_upt_step) simp
  show ?thesis
  proof (cases "?e = length s")
    case True
    then show ?thesis using eq by simp
  next
    case False
    then have fe: "?f ?e = []" using e scanWhile_end [of isSpace s i] by simp
    show ?thesis
    proof (cases "i + 2 \<le> ?e")
      case True
      then have "?f (?e - 1) = [?e - 1]" using spaceRun [of i "?e - 1" s] by simp
      moreover have "rev [i + 1..<?e] = (?e - 1) # rev [i + 1..<?e - 1]"
        using True by (simp add: rev_upt_step)
      ultimately show ?thesis using eq fe False True by simp
    next
      case nope: False
      then have "?e = i + 1" using e by simp
      then show ?thesis using eq fe False by simp
    qed
  qed
qed

lemma first_whitespace:
  assumes "i < length s" "isSpace (s ! i)"
  shows "firstMatch (Alt rx_newlines (Alt rx_spaces (Plus isSpace))) s i = Some (spaceEnd s i)"
proof (rule spaceEnd_cases [OF assms])
  fix m assume "spaceEnd s i = m + 1" "i \<le> m" "m < scanWhile isSpace s i" "isNewline (s ! m)"
    "\<And>k. m < k \<Longrightarrow> k < scanWhile isSpace s i \<Longrightarrow> \<not> isNewline (s ! k)"
  then show ?thesis using first_newlines_hit [of i m s] by (simp add: firstMatch_Alt)
next
  assume "spaceEnd s i = scanWhile isSpace s i - 1" "i + 2 \<le> scanWhile isSpace s i"
    "scanWhile isSpace s i < length s"
    "\<And>k. i \<le> k \<Longrightarrow> k < scanWhile isSpace s i \<Longrightarrow> \<not> isNewline (s ! k)"
  then show ?thesis using first_newlines_miss [of i s] ends_spaces [OF assms]
    by (simp add: firstMatch_Alt)
next
  assume "spaceEnd s i = scanWhile isSpace s i"
    "scanWhile isSpace s i = length s \<or> scanWhile isSpace s i = i + 1"
    "\<And>k. i \<le> k \<Longrightarrow> k < scanWhile isSpace s i \<Longrightarrow> \<not> isNewline (s ! k)"
  then show ?thesis using first_newlines_miss [of i s] ends_spaces [OF assms] assms
    by (auto simp: firstMatch_Alt firstMatch_Plus)
qed

lemma no_whitespace_match:
  "i < length s \<Longrightarrow> isSpace (s ! i) \<Longrightarrow> firstMatch rx_word s i = None \<Longrightarrow>
   firstMatch rx_punct s i = None \<Longrightarrow> \<not> isPunct (s ! i)"
  by (simp add: isPunct_def)

lemma isLetter_scan: "i < length s \<Longrightarrow> isLetter (s ! i) \<Longrightarrow>
  scanWhile isLetter s i = scanWhile isLetter s (i + 1)"
  by (rule scanWhile_go)

lemma pieceEnd_firstMatch:
  assumes "i < length s"
  shows "firstMatch qwen_rx s i = Some (pieceEnd s i)"
proof -
  note simps = qwen_rx_def firstMatch_Alt [of rx_contraction] firstMatch_Alt [of rx_word]
    firstMatch_Alt [of rx_number] firstMatch_Alt [of rx_punct] first_contraction [OF assms]
    first_word [OF assms] first_punct [OF assms] pieceEnd_eq
  have num: "firstMatch rx_number s i = (if isNumber (s ! i) then Some (i + 1) else None)"
    using assms by (simp add: firstMatch_def rx_number_def)
  have cls: "isLetter (s ! i) \<or> isNumber (s ! i) \<or> isPunct (s ! i) \<or> isSpace (s ! i)"
    by (auto simp: isPunct_def)
  have "firstMatch (Alt rx_newlines (Alt rx_spaces (Plus isSpace))) s i = Some (spaceEnd s i)"
    if "isSpace (s ! i)" using assms that by (rule first_whitespace)
  then show ?thesis
    using assms cls num scanWhile_go [of i s isLetter] scanWhile_go [of "i + 1" s isLetter]
    by (auto simp: simps)
qed

subsection \<open>The regex property\<close>


end
