(* ===== verification/Encode.thy ===== *)
theory Encode
  imports Pretok
begin

section \<open>Encoding a text\<close>

text \<open>
  \<open>Tokenizer.Encode\<close> of \<open>internal/tokenizer/tokenizer.go\<close>: the text is split on special-token
  literals (the leftmost occurrence, the longest literal on a tie), whose ids are emitted
  directly, and the text in between goes through the pre-tokenizer.  The Go loop need not
  stop when a special literal is empty, so \<open>encodeLoop\<close> is a partial function: \<open>None\<close> is not
  returning.  \<open>Encode\<close>'s error result is always nil.
\<close>

subsection \<open>Codecs\<close>

text \<open>
  The contract every level of the encoder keeps towards the next: decoding is concatenative
  and undoes the encoding of a well-formed tokenizer.
\<close>

locale codec =
  fixes enc :: "'t \<Rightarrow> gostring \<Rightarrow> int list"
    and dec :: "'t \<Rightarrow> int list \<Rightarrow> gostring"
    and ok :: "'t \<Rightarrow> bool"
  assumes dec_Nil: "dec t [] = []"
    and dec_append: "dec t (xs @ ys) = dec t xs @ dec t ys"
    and dec_enc: "ok t \<Longrightarrow> dec t (enc t w) = w"
begin

lemma dec_enc_pieces: "ok t \<Longrightarrow> dec t (concat (map (enc t) ws)) = concat ws"
  by (induction ws) (simp_all add: dec_Nil dec_append dec_enc)

lemma enc_inject: "ok t \<Longrightarrow> enc t v = enc t w \<longleftrightarrow> v = w"
  by (metis dec_enc)

end

interpretation bpe: codec applyBPE Decode vocab_ok
  by unfold_locales (simp_all add: applyBPE_lossless)

interpretation pre: codec pretokenizeAndBPE Decode vocab_ok
  by unfold_locales
    (simp_all add: pretokenizeAndBPE_def pretokLoop_pieces bpe.dec_enc_pieces pieces_concat)

subsection \<open>The code\<close>

text \<open>\<open>strings.Index\<close>, \<open>None\<close> for its -1.\<close>

fun strIndex :: "gostring \<Rightarrow> gostring \<Rightarrow> nat option" where
  "strIndex [] sub = (if sub = [] then Some 0 else None)"
| "strIndex (c # s) sub = (if prefix sub (c # s) then Some 0 else map_option Suc (strIndex s sub))"

text \<open>The scan over the specials: position, id and length of the best match so far.\<close>

fun bestSpecial ::
  "special list \<Rightarrow> gostring \<Rightarrow> nat \<Rightarrow> (nat \<times> int \<times> nat) option \<Rightarrow> (nat \<times> int \<times> nat) option" where
  "bestSpecial [] rest pos best = best"
| "bestSpecial (sp # sps) rest pos best =
     (case strIndex rest (sp_str sp) of
        None \<Rightarrow> bestSpecial sps rest pos best
      | Some f0 \<Rightarrow>
          let f = f0 + pos in
          (case best of
             None \<Rightarrow> bestSpecial sps rest pos (Some (f, sp_id sp, length (sp_str sp)))
           | Some (bf, bid, bl) \<Rightarrow>
               if f < bf \<or> f = bf \<and> bl < length (sp_str sp)
               then bestSpecial sps rest pos (Some (f, sp_id sp, length (sp_str sp)))
               else bestSpecial sps rest pos best))"

partial_function (option) encodeLoop ::
  "tokenizer \<Rightarrow> gostring \<Rightarrow> nat \<Rightarrow> int list \<Rightarrow> int list option" where
  "encodeLoop t tx pos out =
     (if pos < length tx then
        let best = bestSpecial (specials t) (drop pos tx) pos None;
            chunkEnd = (case best of None \<Rightarrow> length tx | Some (f, _, _) \<Rightarrow> f);
            out' = (if pos < chunkEnd
                    then out @ pretokenizeAndBPE t (take (chunkEnd - pos) (drop pos tx)) else out) in
        (case best of
           None \<Rightarrow> Some out'
         | Some (f, bestID, bestLen) \<Rightarrow> encodeLoop t tx (f + bestLen) (out' @ [bestID]))
      else Some out)"

definition Encode :: "tokenizer \<Rightarrow> gostring \<Rightarrow> int list option" where
  "Encode t tx = encodeLoop t tx 0 []"

subsection \<open>The search for the next special\<close>

lemma strIndex_Some:
  "strIndex s sub = Some i \<longleftrightarrow>
     i \<le> length s \<and> prefix sub (drop i s) \<and> (\<forall>j < i. \<not> prefix sub (drop j s))"
proof (induction s arbitrary: i)
  case Nil
  then show ?case by auto
next
  case (Cons c s)
  show ?case
  proof (cases "prefix sub (c # s)")
    case True
    then show ?thesis by (auto simp: gr0_conv_Suc)
  next
    case False
    then show ?thesis
      by (cases i) (auto simp: Cons.IH All_less_Suc2)
  qed
qed

lemma strIndex_None: "strIndex s sub = None \<longleftrightarrow> (\<forall>i \<le> length s. \<not> prefix sub (drop i s))"
  by (induction s) (auto simp: All_less_Suc2 simp flip: less_Suc_eq_le)

lemma strIndex_bound: "strIndex s sub = Some i \<Longrightarrow> i + length sub \<le> length s"
  by (auto simp: strIndex_Some dest: prefix_length_le)

text \<open>
  What the scan finds: an occurrence no other special precedes, and no other special that
  occurs at the same place is longer.
\<close>

definition bestOf :: "special list \<Rightarrow> gostring \<Rightarrow> nat \<Rightarrow> (nat \<times> int \<times> nat) option \<Rightarrow> bool" where
  "bestOf sps rest pos best =
     (case best of
        None \<Rightarrow> (\<forall>sp \<in> set sps. strIndex rest (sp_str sp) = None)
      | Some (f, i, l) \<Rightarrow>
          (\<exists>sp \<in> set sps. sp_id sp = i \<and> length (sp_str sp) = l \<and> pos \<le> f \<and>
             strIndex rest (sp_str sp) = Some (f - pos)) \<and>
          (\<forall>sp \<in> set sps. \<forall>f0. strIndex rest (sp_str sp) = Some f0 \<longrightarrow>
             f < f0 + pos \<or> f = f0 + pos \<and> length (sp_str sp) \<le> l))"

lemma bestOf_snoc:
  assumes "bestOf seen rest pos best"
  shows "strIndex rest (sp_str sp) = None \<Longrightarrow> bestOf (seen @ [sp]) rest pos best"
    and "strIndex rest (sp_str sp) = Some f0 \<Longrightarrow>
      (case best of None \<Rightarrow> True
       | Some (bf, _, bl) \<Rightarrow> f0 + pos < bf \<or> f0 + pos = bf \<and> bl < length (sp_str sp)) \<Longrightarrow>
      bestOf (seen @ [sp]) rest pos (Some (f0 + pos, sp_id sp, length (sp_str sp)))"
    and "strIndex rest (sp_str sp) = Some f0 \<Longrightarrow> best = Some (bf, bi, bl) \<Longrightarrow>
      \<not> (f0 + pos < bf \<or> f0 + pos = bf \<and> bl < length (sp_str sp)) \<Longrightarrow>
      bestOf (seen @ [sp]) rest pos best"
  using assms unfolding bestOf_def by (fastforce split: option.splits)+

lemma bestSpecial_from:
  "bestOf seen rest pos best \<Longrightarrow> bestOf (seen @ sps) rest pos (bestSpecial sps rest pos best)"
proof (induction sps arbitrary: seen best)
  case (Cons sp sps)
  note IH = Cons.IH [of "seen @ [sp]", simplified]
  show ?case
  proof (cases "strIndex rest (sp_str sp)")
    case None
    then show ?thesis using IH [OF bestOf_snoc(1) [OF Cons.prems None]] by simp
  next
    case (Some f0)
    note snoc = bestOf_snoc(2,3) [OF Cons.prems Some]
    show ?thesis
    proof (cases best)
      case None
      then show ?thesis using IH [OF snoc(1)] Some by simp
    next
      case (Some b)
      obtain bf bi bl where b: "best = Some (bf, bi, bl)" using Some by (cases b) auto
      show ?thesis
        using IH [OF snoc(1)] IH [OF snoc(2) [OF b]] \<open>strIndex rest (sp_str sp) = Some f0\<close> b
        by (simp add: Let_def)
    qed
  qed
qed simp

lemma bestSpecial_bestOf: "bestOf sps rest pos (bestSpecial sps rest pos None)"
  using bestSpecial_from [of "[]" rest pos None sps] by (simp add: bestOf_def)

text \<open>A literal determines its id.\<close>

definition specials_fun :: "special list \<Rightarrow> bool" where
  "specials_fun sps = (\<forall>x \<in> set sps. \<forall>y \<in> set sps. sp_str x = sp_str y \<longrightarrow> sp_id x = sp_id y)"

lemma bestOf_None: "bestOf sps rest pos None \<longleftrightarrow> (\<forall>sp \<in> set sps. strIndex rest (sp_str sp) = None)"
  by (simp add: bestOf_def)

lemma bestOf_SomeD:
  assumes "bestOf sps rest pos (Some (f, i, l))"
  obtains sp where "sp \<in> set sps" "sp_id sp = i" "length (sp_str sp) = l" "pos \<le> f"
    "strIndex rest (sp_str sp) = Some (f - pos)"
  using assms by (auto simp: bestOf_def)

lemma bestOf_least:
  "bestOf sps rest pos (Some (f, i, l)) \<Longrightarrow> sp \<in> set sps \<Longrightarrow> strIndex rest (sp_str sp) = Some f0 \<Longrightarrow>
   f < f0 + pos \<or> f = f0 + pos \<and> length (sp_str sp) \<le> l"
  by (simp add: bestOf_def)

lemma prefix_same_length: "prefix a s \<Longrightarrow> prefix b s \<Longrightarrow> length a = length b \<Longrightarrow> a = b"
  by (metis prefix_length_prefix prefix_order.order_antisym order_refl)

lemma bestOf_unique_Some:
  assumes "specials_fun sps"
    and "bestOf sps rest pos (Some (f, i, l))" "bestOf sps rest pos (Some (f', i', l'))"
  shows "f = f' \<and> i = i' \<and> l = l'"
proof -
  from assms(2) obtain sp where b: "sp \<in> set sps" "sp_id sp = i" "length (sp_str sp) = l" "pos \<le> f"
    "strIndex rest (sp_str sp) = Some (f - pos)" by (rule bestOf_SomeD)
  from assms(3) obtain sp' where b': "sp' \<in> set sps" "sp_id sp' = i'" "length (sp_str sp') = l'"
    "pos \<le> f'" "strIndex rest (sp_str sp') = Some (f' - pos)" by (rule bestOf_SomeD)
  have eq: "f = f'" "l = l'"
    using bestOf_least [OF assms(2) b'(1,5)] bestOf_least [OF assms(3) b(1,5)] b(3,4) b'(3,4) by auto
  have "prefix (sp_str sp) (drop (f - pos) rest)" "prefix (sp_str sp') (drop (f - pos) rest)"
    using b(5) b'(5) eq by (simp_all add: strIndex_Some)
  then have "sp_str sp = sp_str sp'"
    by (rule prefix_same_length) (simp add: b(3) b'(3) eq)
  with assms(1) b(1,2) b'(1,2) have "i = i'" unfolding specials_fun_def by blast
  with eq show ?thesis by simp
qed

lemma bestOf_unique:
  assumes "specials_fun sps" "bestOf sps rest pos b" "bestOf sps rest pos b'"
  shows "b = b'"
proof (cases b; cases b')
  fix p p' assume "b = Some p" "b' = Some p'"
  then show ?thesis
    using bestOf_unique_Some [OF assms(1), of rest pos "fst p" "fst (snd p)" "snd (snd p)"
        "fst p'" "fst (snd p')" "snd (snd p')"] assms(2,3) by (simp add: prod_eq_iff)
next
  fix p assume *: "b = None" "b' = Some p"
  then have "bestOf sps rest pos (Some (fst p, fst (snd p), snd (snd p)))" using assms(3) by simp
  with assms(2) * show ?thesis by (fastforce simp: bestOf_None elim: bestOf_SomeD)
next
  fix p assume *: "b = Some p" "b' = None"
  then have "bestOf sps rest pos (Some (fst p, fst (snd p), snd (snd p)))" using assms(2) by simp
  with assms(3) * show ?thesis by (fastforce simp: bestOf_None elim: bestOf_SomeD)
qed simp

lemma bestSpecial_eqI:
  "specials_fun sps \<Longrightarrow> bestOf sps rest pos b \<Longrightarrow> bestSpecial sps rest pos None = b"
  using bestOf_unique bestSpecial_bestOf by blast

lemma bestSpecial_set_cong:
  assumes "specials_fun sps" "set sps = set sps'"
  shows "bestSpecial sps rest pos None = bestSpecial sps' rest pos None"
proof (rule bestSpecial_eqI [OF assms(1)])
  show "bestOf sps rest pos (bestSpecial sps' rest pos None)"
    using bestSpecial_bestOf [of sps' rest pos] unfolding bestOf_def assms(2) .
qed

subsection \<open>The loop over the rest of the text\<close>

text \<open>
  With no empty literal the loop returns; \<open>encodeRest\<close> is its value by recursion on the rest
  of the text.  (The guard on \<open>l\<close> only makes the recursion total.)
\<close>

definition no_empty_special :: "tokenizer \<Rightarrow> bool" where
  "no_empty_special t = list_all (\<lambda>sp. sp_str sp \<noteq> []) (specials t)"

function encodeRest :: "tokenizer \<Rightarrow> gostring \<Rightarrow> int list" where
  "encodeRest t rest =
     (if rest = [] then []
      else case bestSpecial (specials t) rest 0 None of
        None \<Rightarrow> pretokenizeAndBPE t rest
      | Some (f, i, l) \<Rightarrow>
          if l = 0 then []
          else pretokenizeAndBPE t (take f rest) @ i # encodeRest t (drop (f + l) rest))"
  by pat_completeness auto
termination
  by (relation "measure (\<lambda>(t, rest). length rest)") auto

declare encodeRest.simps [simp del]

lemma pretokenizeAndBPE_Nil [simp]: "pretokenizeAndBPE t [] = []"
  by (simp add: pretokenizeAndBPE_def decodeCPs_def pretokLoop.simps)

lemma bestSpecial_shift:
  "bestSpecial sps rest pos (map_option (\<lambda>(f, i, l). (f + pos, i, l)) best) =
     map_option (\<lambda>(f, i, l). (f + pos, i, l)) (bestSpecial sps rest 0 best)"
proof (induction sps arbitrary: best)
  case (Cons sp sps)
  have some: "bestSpecial sps rest pos (Some (f + pos, i, l)) =
      map_option (\<lambda>(f, i, l). (f + pos, i, l)) (bestSpecial sps rest 0 (Some (f, i, l)))" for f i l
    using Cons.IH [of "Some (f, i, l)"] by simp
  have none: "bestSpecial sps rest pos None =
      map_option (\<lambda>(f, i, l). (f + pos, i, l)) (bestSpecial sps rest 0 None)"
    using Cons.IH [of None] by simp
  show ?case
    by (cases "strIndex rest (sp_str sp)"; cases best) (auto simp: some none Let_def)
qed simp

lemma bestSpecial_pos:
  "bestSpecial sps rest pos None =
     map_option (\<lambda>(f, i, l). (f + pos, i, l)) (bestSpecial sps rest 0 None)"
  using bestSpecial_shift [of sps rest pos None] by simp

lemma bestSpecial_Some:
  assumes "bestSpecial sps rest 0 None = Some (f, i, l)"
  obtains sp where "sp \<in> set sps" "sp_id sp = i" "length (sp_str sp) = l"
    "strIndex rest (sp_str sp) = Some f" "take l (drop f rest) = sp_str sp" "f + l \<le> length rest"
proof -
  from bestSpecial_bestOf [of sps rest 0] assms obtain sp where
    sp: "sp \<in> set sps" "sp_id sp = i" "length (sp_str sp) = l" "strIndex rest (sp_str sp) = Some f"
    by (auto simp: bestOf_def)
  moreover have "take l (drop f rest) = sp_str sp"
    using sp(3,4) by (auto simp: strIndex_Some elim!: prefixE)
  ultimately show ?thesis using that strIndex_bound [OF sp(4)] by blast
qed

lemma encodeLoop_encodeRest:
  assumes "no_empty_special t"
  shows "encodeLoop t tx pos out = Some (out @ encodeRest t (drop pos tx))"
proof (induction "length tx - pos" arbitrary: pos out rule: less_induct)
  case less
  let ?rest = "drop pos tx"
  show ?case
  proof (cases "pos < length tx")
    case False
    then show ?thesis
      by (subst encodeLoop.simps, subst encodeRest.simps) simp
  next
    case True
    show ?thesis
    proof (cases "bestSpecial (specials t) ?rest 0 None")
      case None
      have "encodeRest t ?rest = pretokenizeAndBPE t ?rest"
        using True None by (subst encodeRest.simps) simp
      moreover have "encodeLoop t tx pos out = Some (out @ pretokenizeAndBPE t ?rest)"
        using True None by (subst encodeLoop.simps) (simp add: bestSpecial_pos [of _ _ pos])
      ultimately show ?thesis by simp
    next
      case (Some p)
      obtain f i l where b: "bestSpecial (specials t) ?rest 0 None = Some (f, i, l)"
        using Some by (cases p) auto
      then obtain sp where sp: "sp \<in> set (specials t)" "length (sp_str sp) = l"
        by (rule bestSpecial_Some)
      with assms have l: "0 < l" by (auto simp: no_empty_special_def list_all_iff)
      have IH: "encodeLoop t tx (f + pos + l) o' = Some (o' @ encodeRest t (drop (f + pos + l) tx))" for o'
        by (rule less) (use l True in simp)
      have d: "drop (f + pos + l) tx = drop (f + l) ?rest" by (simp add: ac_simps)
      have step: "encodeRest t ?rest = pretokenizeAndBPE t (take f ?rest) @ i # encodeRest t (drop (f + l) ?rest)"
        using True l by (subst encodeRest.simps) (simp add: b)
      have "encodeLoop t tx pos out = encodeLoop t tx (f + pos + l)
          ((if pos < f + pos then out @ pretokenizeAndBPE t (take (f + pos - pos) ?rest) else out) @ [i])"
        using True by (subst encodeLoop.simps) (simp add: bestSpecial_pos [of _ _ pos] b)
      then show ?thesis unfolding IH d step by (cases "f = 0") simp_all
    qed
  qed
qed

lemma Encode_encodeRest: "no_empty_special t \<Longrightarrow> Encode t tx = Some (encodeRest t tx)"
  by (simp add: Encode_def encodeLoop_encodeRest)

subsection \<open>Well-formed tokenizers\<close>

text \<open>The id of every special decodes to its literal, and no literal is empty.\<close>

definition specials_spell :: "tokenizer \<Rightarrow> bool" where
  "specials_spell t = list_all (\<lambda>sp. Decode t [sp_id sp] = sp_str sp) (specials t)"

definition enc_ok :: "tokenizer \<Rightarrow> bool" where
  "enc_ok t = (vocab_ok t \<and> no_empty_special t \<and> specials_spell t)"

lemma encodeRest_split:
  assumes "rest \<noteq> []" "no_empty_special t" "bestSpecial (specials t) rest 0 None = Some (f, i, l)"
  shows "encodeRest t rest = pretokenizeAndBPE t (take f rest) @ i # encodeRest t (drop (f + l) rest)"
proof -
  from assms(3) obtain sp where "sp \<in> set (specials t)" "length (sp_str sp) = l"
    by (rule bestSpecial_Some)
  with assms(2) have "0 < l" by (auto simp: no_empty_special_def list_all_iff)
  with assms(1,3) show ?thesis by (subst encodeRest.simps) simp
qed

lemma encodeRest_plain:
  "bestSpecial (specials t) rest 0 None = None \<Longrightarrow> encodeRest t rest = pretokenizeAndBPE t rest"
  by (subst encodeRest.simps) simp

lemma encodeRest_Nil [simp]: "encodeRest t [] = []"
  by (subst encodeRest.simps) simp

text \<open>Induction along the specials of the text.\<close>

lemma special_induct [case_names Nil plain split]:
  assumes "no_empty_special t"
    and "P []"
    and "\<And>rest. rest \<noteq> [] \<Longrightarrow> bestSpecial (specials t) rest 0 None = None \<Longrightarrow> P rest"
    and "\<And>rest f sp. rest \<noteq> [] \<Longrightarrow> sp \<in> set (specials t) \<Longrightarrow>
      bestSpecial (specials t) rest 0 None = Some (f, sp_id sp, length (sp_str sp)) \<Longrightarrow>
      strIndex rest (sp_str sp) = Some f \<Longrightarrow>
      rest = take f rest @ sp_str sp @ drop (f + length (sp_str sp)) rest \<Longrightarrow>
      P (drop (f + length (sp_str sp)) rest) \<Longrightarrow> P rest"
  shows "P rest"
proof (induction rest rule: measure_induct_rule [of length])
  case (less rest)
  show ?case
  proof (cases "rest = []")
    case False
    show ?thesis
    proof (cases "bestSpecial (specials t) rest 0 None")
      case (Some p)
      obtain f i l where b: "bestSpecial (specials t) rest 0 None = Some (f, i, l)"
        using Some by (cases p) auto
      then obtain sp where sp: "sp \<in> set (specials t)" "sp_id sp = i" "length (sp_str sp) = l"
        "strIndex rest (sp_str sp) = Some f" "take l (drop f rest) = sp_str sp" "f + l \<le> length rest"
        by (rule bestSpecial_Some)
      have "0 < l" using assms(1) sp by (auto simp: no_empty_special_def list_all_iff)
      then have "P (drop (f + l) rest)" using False by (intro less) simp
      moreover have "rest = take f rest @ sp_str sp @ drop (f + l) rest"
        by (metis append_take_drop_id drop_drop add.commute sp(5))
      ultimately show ?thesis using assms(4) [OF False sp(1), of f] b sp by simp
    qed (use False assms(3) in blast)
  qed (use assms(2) in simp)
qed

lemma encodeRest_lossless:
  assumes "enc_ok t"
  shows "Decode t (encodeRest t tx) = tx"
proof -
  have ok: "vocab_ok t" "no_empty_special t" "specials_spell t" using assms by (simp_all add: enc_ok_def)
  show ?thesis
  proof (induction tx rule: special_induct [OF ok(2), case_names Nil plain split])
    case (split rest f sp)
    have "Decode t [sp_id sp] = sp_str sp"
      using ok(3) split(2) by (simp add: specials_spell_def list_all_iff)
    then have "Decode t (encodeRest t rest) = take f rest @ sp_str sp @ drop (f + length (sp_str sp)) rest"
      using split(6)
      by (simp add: encodeRest_split [OF split(1) ok(2) split(3)] pre.dec_enc [OF ok(1)]
          Decode_Cons [of t "sp_id sp" "encodeRest t _"])
    with split(5) show ?case by simp
  qed (simp_all add: encodeRest_plain pre.dec_enc [OF ok(1)])
qed

subsection \<open>Where the text is cut\<close>

text \<open>No special literal occurs in the chunk.\<close>

definition special_free :: "special list \<Rightarrow> gostring \<Rightarrow> bool" where
  "special_free sps c = list_all (\<lambda>sp. strIndex c (sp_str sp) = None) sps"

lemma strIndex_take:
  assumes "strIndex (take f s) sub = Some i" "f \<le> length s"
  shows "\<exists>j \<le> i. strIndex s sub = Some j"
proof -
  have "prefix sub (drop i (take f s))" "i \<le> f"
    using assms by (simp_all add: strIndex_Some)
  then have "prefix sub (drop i s)"
    by (metis append_take_drop_id drop_take prefix_order.order_trans prefixI)
  then have "\<not> strIndex s sub = None" using \<open>i \<le> f\<close> assms(2) order_trans by (auto simp: strIndex_None)
  then obtain j where j: "strIndex s sub = Some j" by blast
  then have "j \<le> i" using \<open>prefix sub (drop i s)\<close> by (auto simp: strIndex_Some intro: leI)
  with j show ?thesis by blast
qed

lemma bestSpecial_free:
  assumes "bestSpecial sps rest 0 None = Some (f, i, l)" "list_all (\<lambda>sp. sp_str sp \<noteq> []) sps"
  shows "special_free sps (take f rest)"
  unfolding special_free_def list_all_iff
proof (intro ballI, rule ccontr)
  fix sp assume sp: "sp \<in> set sps" "strIndex (take f rest) (sp_str sp) \<noteq> None"
  then obtain k where k: "strIndex (take f rest) (sp_str sp) = Some k" by blast
  have f: "f \<le> length rest" using assms(1) by (rule bestSpecial_Some) simp
  have "k + length (sp_str sp) \<le> f" using strIndex_bound [OF k] by simp
  moreover have "sp_str sp \<noteq> []" using assms(2) sp(1) by (simp add: list_all_iff)
  ultimately have "k < f" by (cases "sp_str sp") auto
  from strIndex_take [OF k f] obtain j where "j \<le> k" "strIndex rest (sp_str sp) = Some j" by blast
  moreover have "bestOf sps rest 0 (Some (f, i, l))" using bestSpecial_bestOf [of sps rest 0] assms(1) by simp
  ultimately show False using bestOf_least [of sps rest 0 f i l sp j] sp(1) \<open>k < f\<close> by simp
qed

definition segIds :: "tokenizer \<Rightarrow> (gostring \<times> special) list \<Rightarrow> int list" where
  "segIds t segs = concat (map (\<lambda>(c, sp). pretokenizeAndBPE t c @ [sp_id sp]) segs)"

definition segText :: "(gostring \<times> special) list \<Rightarrow> gostring" where
  "segText segs = concat (map (\<lambda>(c, sp). c @ sp_str sp) segs)"

lemma encodeRest_segments:
  assumes "no_empty_special t"
  shows "\<exists>segs tl. encodeRest t tx = segIds t segs @ pretokenizeAndBPE t tl \<and> tx = segText segs @ tl \<and>
     list_all (\<lambda>(c, sp). sp \<in> set (specials t) \<and> special_free (specials t) c) segs \<and>
     special_free (specials t) tl"
    (is "\<exists>segs tl. ?P tx segs tl")
proof (induction tx rule: special_induct [OF assms, case_names Nil plain split])
  case Nil
  have "special_free (specials t) []"
    using assms by (simp add: special_free_def no_empty_special_def)
  then show ?case by (intro exI [of _ "[]"]) (simp add: segIds_def segText_def)
next
  case (plain rest)
  have "special_free (specials t) rest"
    using bestSpecial_bestOf [of "specials t" rest 0] plain(2)
    by (simp add: special_free_def bestOf_None list_all_iff)
  then have "?P rest [] rest" by (simp add: segIds_def segText_def encodeRest_plain [OF plain(2)])
  then show ?case by blast
next
  case (split rest f sp)
  then obtain segs tl where IH: "?P (drop (f + length (sp_str sp)) rest) segs tl" by blast
  have "special_free (specials t) (take f rest)"
    using bestSpecial_free [OF split(3)] assms by (simp add: no_empty_special_def)
  moreover have "rest = segText ((take f rest, sp) # segs) @ tl"
    using split(5) IH by (simp add: segText_def)
  moreover have "encodeRest t rest = segIds t ((take f rest, sp) # segs) @ pretokenizeAndBPE t tl"
    using conjunct1 [OF IH] by (simp add: segIds_def encodeRest_split [OF split(1) assms split(3)])
  ultimately have "?P rest ((take f rest, sp) # segs) tl"
    using IH split(2) by simp
  then show ?case by blast
qed

subsection \<open>The order of the specials\<close>

lemma with_specials [simp]:
  "applyBPE (t\<lparr>specials := x\<rparr>) = applyBPE t"
  "pretokenizeAndBPE (t\<lparr>specials := x\<rparr>) = pretokenizeAndBPE t"
proof -
  have scan: "bestScan (t\<lparr>specials := x\<rparr>) xs i r j = bestScan t xs i r j" for t :: tokenizer and xs i r j
    by (induction t xs i r j rule: bestScan.induct) (auto split: option.splits)
  have loop: "bpeLoop (t\<lparr>specials := x\<rparr>) xs = bpeLoop t xs" for t :: tokenizer and xs
  proof (induction t xs rule: bpeLoop.induct)
    case (1 t xs)
    have "bpeLoop (t\<lparr>specials := x\<rparr>) (mergePairs (xs ! nat (snd b)) (xs ! (nat (snd b) + 1)) xs) =
        bpeLoop t (mergePairs (xs ! nat (snd b)) (xs ! (nat (snd b) + 1)) xs)"
      if "b = bestScan t xs 0 MaxInt (- 1)" "2 \<le> length xs" "\<not> snd b < 0" for b
      using that by (intro 1 [of b "fst b"]) auto
    then show ?case
      by (subst (1 2) bpeLoop.simps) (simp add: scan case_prod_unfold Let_def)
  qed
  show bpe: "applyBPE (t\<lparr>specials := x\<rparr>) = applyBPE t"
    by (simp add: fun_eq_iff applyBPE_def loop)
  show "pretokenizeAndBPE (t\<lparr>specials := x\<rparr>) = pretokenizeAndBPE t"
    by (simp add: fun_eq_iff pretokenizeAndBPE_def pretokLoop_pieces bpe)
qed

lemma encodeRest_set_cong:
  assumes "no_empty_special t" "specials_fun (specials t)" "set (specials t) = set sps"
  shows "encodeRest (t\<lparr>specials := sps\<rparr>) tx = encodeRest t tx"
proof -
  have ne: "no_empty_special (t\<lparr>specials := sps\<rparr>)"
    using assms(1,3) by (simp add: no_empty_special_def list_all_iff)
  have best: "bestSpecial sps rest 0 None = bestSpecial (specials t) rest 0 None" for rest
    using bestSpecial_set_cong [OF assms(2,3)] by simp
  show ?thesis
  proof (induction tx rule: special_induct [OF assms(1), case_names Nil plain split])
    case (plain rest)
    then show ?case by (simp add: encodeRest_plain best)
  next
    case (split rest f sp)
    then show ?case
      using encodeRest_split [OF split(1) assms(1) split(3)] encodeRest_split [OF split(1) ne] best by simp
  qed simp
qed

subsection \<open>An empty literal\<close>

lemma strIndex_empty [simp]: "strIndex s [] = Some 0"
  by (cases s) simp_all

text \<open>
  With an empty literal among the specials and no other literal at the position, the scan
  answers with the empty literal: the position does not move.
\<close>

lemma bestSpecial_empty:
  assumes "sp \<in> set sps" "sp_str sp = []"
    and "\<And>x. x \<in> set sps \<Longrightarrow> sp_str x \<noteq> [] \<Longrightarrow> \<not> prefix (sp_str x) rest"
  shows "\<exists>i. bestSpecial sps rest pos None = Some (pos, i, 0)"
proof -
  have best: "bestOf sps rest pos (bestSpecial sps rest pos None)" by (rule bestSpecial_bestOf)
  show ?thesis
  proof (cases "bestSpecial sps rest pos None")
    case None
    with best assms(1,2) show ?thesis by (force simp: bestOf_None)
  next
    case (Some p)
    obtain f i l where b: "bestSpecial sps rest pos None = Some (f, i, l)" using Some by (cases p) auto
    with best have b': "bestOf sps rest pos (Some (f, i, l))" by simp
    then have "f = pos" "pos \<le> f"
      using bestOf_least [OF b' assms(1), of 0] assms(2) by (auto elim: bestOf_SomeD)
    moreover from b' obtain x where x: "x \<in> set sps" "length (sp_str x) = l"
      "strIndex rest (sp_str x) = Some (f - pos)" by (rule bestOf_SomeD)
    ultimately have "prefix (sp_str x) rest" by (simp add: strIndex_Some)
    with assms(3) x have "l = 0" by auto
    with b \<open>f = pos\<close> show ?thesis by simp
  qed
qed

lemma encodeLoop_stuck:
  assumes "pos < length tx" "bestSpecial (specials t) (drop pos tx) pos None = Some (pos, i, 0)"
  shows "encodeLoop t tx pos out = None"
proof -
  let ?P = "\<lambda>t tx pos (out :: int list) (y :: int list). pos < length tx \<longrightarrow>
    bestSpecial (specials t) (drop pos tx) pos None = Some (pos, i, 0) \<longrightarrow> False"
  have False if "encodeLoop t tx pos out = Some y" for y
  proof (rule encodeLoop.raw_induct [where P = ?P, rule_format, OF _ that assms])
    fix loop t tx pos out y
    assume IH: "\<And>t tx pos out y. loop t tx pos out = Some y \<Longrightarrow> pos < length tx \<Longrightarrow>
        bestSpecial (specials t) (drop pos tx) pos None = Some (pos, i, 0) \<Longrightarrow> False"
      and step: "(if pos < length tx then
        let best = bestSpecial (specials t) (drop pos tx) pos None;
            chunkEnd = (case best of None \<Rightarrow> length tx | Some (f, _, _) \<Rightarrow> f);
            out' = (if pos < chunkEnd
                    then out @ pretokenizeAndBPE t (take (chunkEnd - pos) (drop pos tx)) else out) in
        (case best of
           None \<Rightarrow> Some out'
         | Some (f, bestID, bestLen) \<Rightarrow> loop t tx (f + bestLen) (out' @ [bestID]))
        else Some out) = Some y"
      and pos: "pos < length tx" "bestSpecial (specials t) (drop pos tx) pos None = Some (pos, i, 0)"
    from step pos have "loop t tx pos (out @ [i]) = Some y" by (simp add: Let_def)
    from IH [OF this pos] show False .
  qed
  then show ?thesis by (cases "encodeLoop t tx pos out") auto
qed

subsection \<open>The ids of an encoding\<close>

lemma map_filter_mem: "i \<in> set (List.map_filter f xs) \<Longrightarrow> \<exists>x \<in> set xs. f x = Some i"
  by (induction xs) (auto simp: map_filter_simps split: option.splits)

lemma pretok_ids: "i \<in> set (pretokenizeAndBPE t tx) \<Longrightarrow> \<exists>s. tokToID t s = Some i"
  by (auto simp: pretokenizeAndBPE_def pretokLoop_pieces applyBPE_def Let_def split: if_splits
      dest!: map_filter_mem)

text \<open>Every id the tokenizer knows fits the protocol's \<open>int32\<close>.\<close>

definition int32_ids :: "tokenizer \<Rightarrow> bool" where
  "int32_ids t =
     ((\<forall>s i. tokToID t s = Some i \<longrightarrow> - (2 ^ 31) \<le> i \<and> i < 2 ^ 31) \<and>
      list_all (\<lambda>sp. - (2 ^ 31) \<le> sp_id sp \<and> sp_id sp < 2 ^ 31) (specials t))"

lemma encodeRest_ids:
  assumes "no_empty_special t" "\<And>s i. tokToID t s = Some i \<Longrightarrow> P i"
    and "\<And>sp. sp \<in> set (specials t) \<Longrightarrow> P (sp_id sp)"
  shows "i \<in> set (encodeRest t tx) \<Longrightarrow> P i"
proof (induction tx rule: special_induct [OF assms(1), case_names Nil plain split])
  case (plain rest)
  then show ?case using assms(2) pretok_ids [of i t rest] by (auto simp: encodeRest_plain)
next
  case (split rest f sp)
  then consider "i \<in> set (pretokenizeAndBPE t (take f rest))" | "i = sp_id sp"
    | "i \<in> set (encodeRest t (drop (f + length (sp_str sp)) rest))"
    by (auto simp: encodeRest_split [OF split(1) assms(1) split(3)])
  then show ?case
    using assms(2,3) pretok_ids [of i t "take f rest"] split(2,6) by cases auto
qed simp

lemma encodeRest_int32:
  assumes "no_empty_special t" "int32_ids t"
  shows "i \<in> set (encodeRest t tx) \<Longrightarrow> - (2 ^ 31) \<le> i \<and> i < 2 ^ 31"
  by (rule encodeRest_ids [OF assms(1)]) (use assms(2) in \<open>auto simp: int32_ids_def list_all_iff\<close>)

subsection \<open>The properties of \<open>Encode\<close>\<close>

text \<open>
  C12: without empty special literals \<open>Encode\<close> returns, and its ids are those of a
  segmentation of the text: chunks in which no special literal occurs, each followed by a special
  literal of the tokenizer, and a last such chunk.  Chunks contribute the ids of the
  pre-tokenizer, literals their own id.
\<close>

theorem Encode_segments:
  assumes "no_empty_special t"
  shows "\<exists>segs tl. Encode t tx = Some (segIds t segs @ pretokenizeAndBPE t tl) \<and>
     tx = segText segs @ tl \<and>
     list_all (\<lambda>(c, sp). sp \<in> set (specials t) \<and> special_free (specials t) c) segs \<and>
     special_free (specials t) tl"
  using encodeRest_segments [OF assms, of tx] by (simp add: Encode_encodeRest [OF assms])

definition sampleSpecials :: "special list" where
  "sampleSpecials = [\<lparr>sp_str = ''<s>'', sp_id = 7\<rparr>, \<lparr>sp_str = ''<s'', sp_id = 8\<rparr>]"

lemma Encode_segments_witness:
  "\<exists>segs tl. Encode (new_tokenizer\<lparr>specials := sampleSpecials\<rparr>) ''a<s>b'' =
       Some (segIds (new_tokenizer\<lparr>specials := sampleSpecials\<rparr>) segs @
         pretokenizeAndBPE (new_tokenizer\<lparr>specials := sampleSpecials\<rparr>) tl) \<and>
     ''a<s>b'' = segText segs @ tl \<and>
     list_all (\<lambda>(c, sp). sp \<in> set (specials (new_tokenizer\<lparr>specials := sampleSpecials\<rparr>)) \<and>
       special_free (specials (new_tokenizer\<lparr>specials := sampleSpecials\<rparr>)) c) segs \<and>
     special_free (specials (new_tokenizer\<lparr>specials := sampleSpecials\<rparr>)) tl"
  by (rule Encode_segments) (simp add: no_empty_special_def sampleSpecials_def)



text \<open>
  C30: an empty special literal makes \<open>Encode\<close> loop for ever, on any non-empty
  text that does not begin with another special literal: the empty literal matches at the
  current position, its id is appended, and the position does not move.
\<close>

theorem Encode_empty_literal_diverges:
  assumes "sp \<in> set (specials t)" "sp_str sp = []" "tx \<noteq> []"
    and "list_all (\<lambda>x. prefix (sp_str x) tx \<longrightarrow> sp_str x = []) (specials t)"
  shows "Encode t tx = None"
proof -
  obtain i where "bestSpecial (specials t) (drop 0 tx) 0 None = Some (0, i, 0)"
    using bestSpecial_empty [OF assms(1,2), of tx 0] assms(4) by (auto simp: list_all_iff)
  then show ?thesis
    unfolding Encode_def by (intro encodeLoop_stuck) (use assms(3) in auto)
qed

lemma Encode_empty_literal_diverges_witness:
  "Encode (new_tokenizer\<lparr>specials := [\<lparr>sp_str = ''<s>'', sp_id = 1\<rparr>, \<lparr>sp_str = [], sp_id = 2\<rparr>]\<rparr>) ''hi'' = None"
  by (rule Encode_empty_literal_diverges [where sp = "\<lparr>sp_str = [], sp_id = 2\<rparr>"]) simp_all

end
