(* ===== verification/Decimal.thy ===== *)
theory Decimal
  imports Prelude
begin

section \<open>Decimal numbers\<close>

text \<open>
  \<open>strconv.Itoa\<close>, the \<open>%d\<close> verb, \<open>strconv.ParseInt\<close> for base 10 and 64 bits, and how a
  \<open>time.Duration\<close> prints, as the standard library defines them.
\<close>

fun natDec :: "nat \<Rightarrow> gostring" where
  "natDec n = (if n < 10 then [byte (48 + n)] else natDec (n div 10) @ [byte (48 + n mod 10)])"

declare natDec.simps [simp del]

definition itoa :: "int \<Rightarrow> gostring" where
  "itoa i = (if i < 0 then CHR ''-'' # natDec (nat (- i)) else natDec (nat i))"

lemma natDec_digits: "c \<in> set (natDec n) \<Longrightarrow> 48 \<le> bv c \<and> bv c \<le> 57"
proof (induction n rule: natDec.induct)
  case (1 n)
  then show ?case
    by (subst (asm) natDec.simps) (auto simp: bv_byte split: if_splits)
qed

fun decValue :: "gostring \<Rightarrow> nat" where
  "decValue [] = 0"
| "decValue (c # s) = (bv c - 48) * 10 ^ length s + decValue s"

lemma decValue_snoc: "decValue (s @ [c]) = 10 * decValue s + (bv c - 48)"
  by (induction s) (simp_all add: algebra_simps)

lemma decValue_natDec [roundtrips]: "decValue (natDec n) = n"
proof (induction n rule: natDec.induct)
  case (1 n)
  then show ?case by (subst natDec.simps) (auto simp: decValue_snoc bv_byte)
qed

lemma natDec_inject: "natDec m = natDec n \<longleftrightarrow> m = n"
  by (metis decValue_natDec)

lemma itoa_nat: "itoa (int n) = natDec n"
  by (simp add: itoa_def)

lemma itoa_nat_inject: "itoa (int m) = itoa (int n) \<longleftrightarrow> m = n"
  by (simp add: itoa_nat natDec_inject)


subsection \<open>Parsing\<close>

definition isDigit :: "char \<Rightarrow> bool" where
  "isDigit c = (48 \<le> bv c \<and> bv c \<le> 57)"

text \<open>A digit string, with a sign if there is one; \<open>None\<close> is a syntax or a range error.\<close>

definition parseInt :: "gostring \<Rightarrow> int option" where
  "parseInt s =
     (let neg = (s \<noteq> [] \<and> hd s = CHR ''-'');
          ds = (if s \<noteq> [] \<and> (hd s = CHR ''-'' \<or> hd s = CHR ''+'') then tl s else s);
          i = (if neg then - int (decValue ds) else int (decValue ds)) in
      if ds = [] \<or> \<not> list_all isDigit ds then None
      else if - (2 ^ 63) \<le> i \<and> i \<le> MaxInt then Some i else None)"

lemma natDec_nonempty [simp]: "natDec n \<noteq> []"
  by (subst natDec.simps) simp

lemma natDec_isDigit: "list_all isDigit (natDec n)"
  using natDec_digits by (auto simp: list_all_iff isDigit_def)

lemma natDec_hd: "isDigit (hd (natDec n))"
  using natDec_isDigit [of n] by (cases "natDec n") auto

lemma parseInt_itoa [roundtrips]:
  assumes "- (2 ^ 63) \<le> i" "i \<le> MaxInt"
  shows "parseInt (itoa i) = Some i"
proof -
  have "\<not> isDigit (CHR ''-'')" "\<not> isDigit (CHR ''+'')" by (simp_all add: isDigit_def)
  then have "hd (natDec n) \<noteq> CHR ''-''" "hd (natDec n) \<noteq> CHR ''+''" for n
    using natDec_hd [of n] by metis+
  then show ?thesis
    using assms by (simp add: parseInt_def itoa_def natDec_isDigit decValue_natDec Let_def)
qed

subsection \<open>Durations\<close>

text \<open>The last \<open>k\<close> decimal digits.\<close>

definition padded :: "nat \<Rightarrow> nat \<Rightarrow> gostring" where
  "padded k n = map (\<lambda>i. byte (48 + n div 10 ^ i mod 10)) (rev [0..<k])"

text \<open>A fraction of \<open>prec\<close> digits without its trailing zeros, and without the point if it is zero.\<close>

definition fracText :: "nat \<Rightarrow> nat \<Rightarrow> gostring" where
  "fracText prec n =
     (let ds = rev (dropWhile (\<lambda>c. c = CHR ''0'') (rev (padded prec n))) in
      if ds = [] then [] else ''.'' @ ds)"

text \<open>A duration in nanoseconds: hours, minutes and seconds, or a smaller unit below one second.\<close>

definition durationString :: "int \<Rightarrow> gostring" where
  "durationString d =
     (let u = nat \<bar>d\<bar>; sign = (if d < 0 then ''-'' else []) in
      if u = 0 then ''0s''
      else if u < 1000 then sign @ natDec u @ ''ns''
      else if u < 1000000 then sign @ natDec (u div 1000) @ fracText 3 u @ [CHR 0xC2, CHR 0xB5] @ ''s''
      else if u < 1000000000 then sign @ natDec (u div 1000000) @ fracText 6 u @ ''ms''
      else
        let sec = u div 1000000000; rest = natDec (sec mod 60) @ fracText 9 u @ ''s'' in
        sign @ (if sec < 60 then rest
                else (if sec < 3600 then [] else natDec (sec div 3600) @ ''h'') @
                  natDec (sec div 60 mod 60) @ ''m'' @ rest))"

end
