(* ===== verification/Json.thy ===== *)
theory Json
  imports Utf8 Decimal "HOL-Library.List_Lexorder" "HOL-Library.Char_ord"
begin

section \<open>Go's \<open>encoding/json\<close>\<close>

text \<open>
  The part of \<open>encoding/json\<close> the program relies on: the syntax the scanner accepts with its
  nesting limit, \<open>Unmarshal\<close> into the types the sources use, string quoting and \<open>RawMessage\<close>
  compaction.  Like \<open>Utf8\<close>, this models no file of the repository.

  A parsed value keeps, for every element and member, the exact bytes it was read from: that is
  what a \<open>json.RawMessage\<close> receives.  The body of a string is kept as written; \<open>unquote\<close>
  decodes it.
\<close>

datatype json =
    JNull
  | JBool bool
  | JNum gostring
  | JStr gostring
  | JArr "(gostring \<times> json) list"
  | JObj "(gostring \<times> gostring \<times> json) list"

subsection \<open>Tokens\<close>

definition isBlank :: "char \<Rightarrow> bool" where
  "isBlank c = (c = CHR 0x20 \<or> c = CHR 0x09 \<or> c = CHR 0x0D \<or> c = CHR 0x0A)"

definition skipSpace :: "gostring \<Rightarrow> gostring" where
  "skipSpace s = dropWhile isBlank s"

definition hexVal :: "char \<Rightarrow> nat option" where
  "hexVal c =
     (if isDigit c then Some (bv c - 48)
      else if 97 \<le> bv c \<and> bv c \<le> 102 then Some (bv c - 87)
      else if 65 \<le> bv c \<and> bv c \<le> 70 then Some (bv c - 55)
      else None)"

text \<open>Four hexadecimal digits at the head of a text.\<close>

fun hex4 :: "gostring \<Rightarrow> nat option" where
  "hex4 (a # b # c # d # s) =
     (case (hexVal a, hexVal b, hexVal c, hexVal d) of
        (Some w, Some x, Some y, Some z) \<Rightarrow> Some (w * 4096 + x * 256 + y * 16 + z)
      | _ \<Rightarrow> None)"
| "hex4 _ = None"

text \<open>The body of a string literal after its opening quote, and what follows the closing one.\<close>

definition isEscape :: "char \<Rightarrow> bool" where
  "isEscape e =
     (e \<in> {CHR ''b'', CHR ''f'', CHR ''n'', CHR ''r'', CHR ''t'', CHR 0x5C, CHR ''/'', CHR 0x22})"

fun stringBody :: "gostring \<Rightarrow> (gostring \<times> gostring) option" where
  "stringBody [] = None"
| "stringBody (c # s) =
     (if c = CHR 0x22 then Some ([], s)
      else if c = CHR 0x5C then
        (case s of
           [] \<Rightarrow> None
         | e # r \<Rightarrow>
           if isEscape e \<or> e = CHR ''u'' \<and> hex4 r \<noteq> None then
             map_option (apfst (\<lambda>b. c # e # b)) (stringBody r)
           else None)
      else if bv c < 32 then None
      else map_option (apfst (\<lambda>b. c # b)) (stringBody s))"

text \<open>Numbers: sign, integer part without leading zeros, fraction, exponent.\<close>

definition digits :: "gostring \<Rightarrow> gostring \<times> gostring" where
  "digits s = (takeWhile isDigit s, dropWhile isDigit s)"

text \<open>At least one digit.\<close>

definition digits1 :: "gostring \<Rightarrow> gostring option" where
  "digits1 s = (if fst (digits s) = [] then None else Some (snd (digits s)))"

definition isMinus :: "char \<Rightarrow> bool" where
  "isMinus c = (c = CHR ''-'')"

definition isSign :: "char \<Rightarrow> bool" where
  "isSign c = (c = CHR ''+'' \<or> c = CHR ''-'')"

definition isPoint :: "char \<Rightarrow> bool" where
  "isPoint c = (c = CHR ''.'')"

definition isExp :: "char \<Rightarrow> bool" where
  "isExp c = (c = CHR ''e'' \<or> c = CHR ''E'')"

fun dropIf :: "(char \<Rightarrow> bool) \<Rightarrow> gostring \<Rightarrow> gostring" where
  "dropIf P [] = []"
| "dropIf P (c # s) = (if P c then s else c # s)"

fun numInt :: "gostring \<Rightarrow> gostring option" where
  "numInt [] = None"
| "numInt (c # s) = (if c = CHR ''0'' then Some s else digits1 (c # s))"

fun numFrac :: "gostring \<Rightarrow> gostring option" where
  "numFrac [] = Some []"
| "numFrac (c # s) = (if isPoint c then digits1 s else Some (c # s))"

fun numExp :: "gostring \<Rightarrow> gostring option" where
  "numExp [] = Some []"
| "numExp (c # s) = (if isExp c then digits1 (dropIf isSign s) else Some (c # s))"

text \<open>The text consumed when \<open>r\<close> is what is left of \<open>s\<close>.\<close>

definition upto :: "gostring \<Rightarrow> gostring \<Rightarrow> gostring" where
  "upto s r = take (length s - length r) s"

definition number :: "gostring \<Rightarrow> (gostring \<times> gostring) option" where
  "number s =
     (case numInt (dropIf isMinus s) of
        None \<Rightarrow> None
      | Some r1 \<Rightarrow>
        (case numFrac r1 of
           None \<Rightarrow> None
         | Some r2 \<Rightarrow>
           (case numExp r2 of None \<Rightarrow> None | Some r3 \<Rightarrow> Some (upto s r3, r3))))"

definition keyword :: "gostring \<Rightarrow> json \<Rightarrow> gostring \<Rightarrow> (json \<times> gostring) option" where
  "keyword w v s = (if prefix w s then Some (v, drop (length w) s) else None)"

subsection \<open>Values\<close>

text \<open>
  \<open>d\<close> is how many more containers may be opened (the scanner's limit is 10000).  The first
  argument bounds the recursion; \<open>jvalue_fuel\<close> below shows that twice the length of the text is
  enough.
\<close>

definition maxNestingDepth :: nat where
  "maxNestingDepth = 10000"

fun jvalue :: "nat \<Rightarrow> nat \<Rightarrow> gostring \<Rightarrow> (json \<times> gostring) option"
and jelems :: "nat \<Rightarrow> nat \<Rightarrow> gostring \<Rightarrow> ((gostring \<times> json) list \<times> gostring) option"
and jmembers :: "nat \<Rightarrow> nat \<Rightarrow> gostring \<Rightarrow> ((gostring \<times> gostring \<times> json) list \<times> gostring) option"
where
  "jvalue 0 d s = None"
| "jvalue (Suc n) d s =
     (case s of
        [] \<Rightarrow> None
      | c # r \<Rightarrow>
        if c = CHR 0x22 then map_option (apfst JStr) (stringBody r)
        else if c = CHR ''['' then
          (if d = 0 then None
           else if prefix '']'' (skipSpace r) then Some (JArr [], tl (skipSpace r))
           else map_option (apfst JArr) (jelems n (d - 1) (skipSpace r)))
        else if c = CHR ''{'' then
          (if d = 0 then None
           else if prefix ''}'' (skipSpace r) then Some (JObj [], tl (skipSpace r))
           else map_option (apfst JObj) (jmembers n (d - 1) (skipSpace r)))
        else if c = CHR ''-'' \<or> isDigit c then map_option (apfst JNum) (number s)
        else if c = CHR ''t'' then keyword ''true'' (JBool True) s
        else if c = CHR ''f'' then keyword ''false'' (JBool False) s
        else if c = CHR ''n'' then keyword ''null'' JNull s
        else None)"
| "jelems 0 d s = None"
| "jelems (Suc n) d s =
     (case jvalue n d s of
        None \<Rightarrow> None
      | Some (v, r) \<Rightarrow>
        let e = (upto s r, v); r' = skipSpace r in
        if prefix '','' r' then map_option (apfst ((#) e)) (jelems n d (skipSpace (tl r')))
        else if prefix '']'' r' then Some ([e], tl r')
        else None)"
| "jmembers 0 d s = None"
| "jmembers (Suc n) d s =
     (if \<not> prefix [CHR 0x22] s then None
      else case stringBody (tl s) of
        None \<Rightarrow> None
      | Some (k, r) \<Rightarrow>
        let r1 = skipSpace r in
        if \<not> prefix '':'' r1 then None
        else
          let s1 = skipSpace (tl r1) in
          case jvalue n d s1 of
            None \<Rightarrow> None
          | Some (v, r2) \<Rightarrow>
            let m = (k, upto s1 r2, v); r' = skipSpace r2 in
            if prefix '','' r' then map_option (apfst ((#) m)) (jmembers n d (skipSpace (tl r')))
            else if prefix ''}'' r' then Some ([m], tl r')
            else None)"

text \<open>A whole input: one value between blanks.  The result has the value's own bytes.\<close>

definition parseJSON :: "gostring \<Rightarrow> (gostring \<times> json) option" where
  "parseJSON s =
     (let s0 = skipSpace s in
      case jvalue (2 * length s0 + 1) maxNestingDepth s0 of
        None \<Rightarrow> None
      | Some (v, r) \<Rightarrow> if skipSpace r = [] then Some (upto s0 r, v) else None)"

subsection \<open>Strings\<close>

text \<open>
  \<open>unquoteBytes\<close> on a body the scanner accepted.  Surrogate pairs are joined, lone surrogates and
  invalid UTF-8 become U+FFFD.
\<close>

definition isSurrogate :: "nat \<Rightarrow> bool" where
  "isSurrogate r = (55296 \<le> r \<and> r < 57344)"

definition surrogatePair :: "nat \<Rightarrow> nat \<Rightarrow> rune" where
  "surrogatePair r1 r2 =
     (if 55296 \<le> r1 \<and> r1 < 56320 \<and> 56320 \<le> r2 \<and> r2 < 57344
      then (r1 - 55296) * 1024 + (r2 - 56320) + 65536 else RuneError)"

definition getu4 :: "gostring \<Rightarrow> nat option" where
  "getu4 s = (if prefix [CHR 0x5C, CHR ''u''] s then hex4 (drop 2 s) else None)"

definition unescape :: "char \<Rightarrow> char" where
  "unescape e =
     (if e = CHR ''b'' then CHR 0x08 else if e = CHR ''f'' then CHR 0x0C
      else if e = CHR ''n'' then CHR 0x0A else if e = CHR ''r'' then CHR 0x0D
      else if e = CHR ''t'' then CHR 0x09 else e)"

function unquote :: "gostring \<Rightarrow> gostring" where
  "unquote s =
     (if s = [] then []
      else if hd s = CHR 0x5C then
        (case getu4 s of
           Some rr \<Rightarrow>
             if isSurrogate rr then
               let dec = (case getu4 (drop 6 s) of Some rr1 \<Rightarrow> surrogatePair rr rr1 | None \<Rightarrow> RuneError) in
               if dec \<noteq> RuneError then EncodeRune dec @ unquote (drop 12 s)
               else EncodeRune RuneError @ unquote (drop 6 s)
             else EncodeRune rr @ unquote (drop 6 s)
         | None \<Rightarrow> map unescape (take 1 (tl s)) @ unquote (drop 2 s))
      else if bv (hd s) < RuneSelf then hd s # unquote (tl s)
      else EncodeRune (fst (DecodeRune s)) @ unquote (drop (snd (DecodeRune s)) s))"
  by pat_completeness auto
termination
  by (relation "measure length") (auto simp: DecodeRune_pos)

declare unquote.simps [simp del]

text \<open>\<open>Marshal\<close> of a string, with its HTML escapes.\<close>

definition hexDigit :: "nat \<Rightarrow> char" where
  "hexDigit n = byte (if n < 10 then 48 + n else 87 + n)"

definition u00 :: "char \<Rightarrow> gostring" where
  "u00 c = [CHR 0x5C, CHR ''u'', CHR ''0'', CHR ''0'', hexDigit (bv c div 16), hexDigit (bv c mod 16)]"

definition htmlSafe :: "char \<Rightarrow> bool" where
  "htmlSafe c =
     (32 \<le> bv c \<and> bv c < 128 \<and> c \<notin> {CHR 0x22, CHR 0x5C, CHR ''<'', CHR ''>'', CHR ''&''})"

definition escByte :: "char \<Rightarrow> gostring" where
  "escByte c =
     (if htmlSafe c then [c]
      else if c = CHR 0x22 \<or> c = CHR 0x5C then [CHR 0x5C, c]
      else if c = CHR 0x08 then [CHR 0x5C, CHR ''b''] else if c = CHR 0x0C then [CHR 0x5C, CHR ''f'']
      else if c = CHR 0x0A then [CHR 0x5C, CHR ''n''] else if c = CHR 0x0D then [CHR 0x5C, CHR ''r'']
      else if c = CHR 0x09 then [CHR 0x5C, CHR ''t''] else u00 c)"

function quoteBody :: "gostring \<Rightarrow> gostring" where
  "quoteBody s =
     (if s = [] then []
      else if bv (hd s) < RuneSelf then escByte (hd s) @ quoteBody (tl s)
      else if DecodeRune s = (RuneError, 1) then CHR 0x5C # ''ufffd'' @ quoteBody (tl s)
      else
        let r = fst (DecodeRune s) in
        (if r = 8232 \<or> r = 8233 then CHR 0x5C # ''u202'' @ [hexDigit (r mod 16)]
         else take (snd (DecodeRune s)) s) @
        quoteBody (drop (snd (DecodeRune s)) s))"
  by pat_completeness auto
termination
  by (relation "measure length") (auto simp: DecodeRune_pos)

declare quoteBody.simps [simp del]

definition quote :: "gostring \<Rightarrow> gostring" where
  "quote s = [CHR 0x22] @ quoteBody s @ [CHR 0x22]"

subsection \<open>Raw messages\<close>

text \<open>
  \<open>Marshal\<close> of a \<open>json.RawMessage\<close>: the value is checked, blanks outside strings are dropped and
  the characters of the HTML escapes are escaped inside them.  \<open>None\<close> is the error.
\<close>

fun compactIn :: "gostring \<Rightarrow> gostring" and compactOut :: "gostring \<Rightarrow> gostring" where
  "compactIn [] = []"
| "compactIn (c # s) =
     (if c = CHR 0x22 then c # compactOut s
      else if c = CHR 0x5C then (case s of [] \<Rightarrow> [c] | e # r \<Rightarrow> c # e # compactIn r)
      else if c \<in> {CHR ''<'', CHR ''>'', CHR ''&''} then u00 c @ compactIn s
      else if c = CHR 0xE2 \<and> (prefix [CHR 0x80, CHR 0xA8] s \<or> prefix [CHR 0x80, CHR 0xA9] s) then
        CHR 0x5C # ''u202'' @ [hexDigit (bv (s ! 1) mod 16)] @ compactIn (drop 2 s)
      else c # compactIn s)"
| "compactOut [] = []"
| "compactOut (c # s) =
     (if isBlank c then compactOut s
      else if c = CHR 0x22 then c # compactIn s
      else c # compactOut s)"

definition marshalRaw :: "gostring \<Rightarrow> gostring option" where
  "marshalRaw b = (if parseJSON b = None then None else Some (compactOut b))"

text \<open>
  \<open>Marshal\<close> of a Go value built from nil pointers, booleans, integers, strings, raw messages, slices, structs
  (the fields that are not omitted, in their order) and maps (the keys sorted by their bytes).
  An error inside is an error of the whole.
\<close>

datatype goval =
    GNil
  | GBool bool
  | GInt int
  | GStr gostring
  | GRaw gostring
  | GSlice "goval list"
  | GStruct "(gostring \<times> goval) list"
  | GMap "(gostring \<times> goval) list"

fun joinComma :: "gostring list \<Rightarrow> gostring" where
  "joinComma [] = []"
| "joinComma (b # bs) = b @ (if bs = [] then [] else '','' @ joinComma bs)"

definition objectText :: "(gostring \<times> gostring) list \<Rightarrow> gostring" where
  "objectText ms = ''{'' @ joinComma (map (\<lambda>(k, b). quote k @ '':'' @ b) ms) @ ''}''"

fun marshal :: "goval \<Rightarrow> gostring option" where
  "marshal GNil = Some ''null''"
| "marshal (GInt i) = Some (itoa i)"
| "marshal (GStr s) = Some (quote s)"
| "marshal (GRaw b) = marshalRaw b"
| "marshal (GSlice vs) =
     map_option (\<lambda>bs. ''['' @ joinComma bs @ '']'') (those (map marshal vs))"
| "marshal (GStruct kvs) =
     map_option objectText (those (map (\<lambda>(k, v). map_option (Pair k) (marshal v)) kvs))"
| "marshal (GMap kvs) =
     map_option (\<lambda>ms. objectText (sort_key fst ms))
       (those (map (\<lambda>(k, v). map_option (Pair k) (marshal v)) kvs))"
| "marshal (GBool b) = Some (if b then ''true'' else ''false'')"

subsection \<open>Decoding into Go values\<close>

text \<open>
  \<open>Unmarshal\<close> decodes into a variable: \<open>null\<close> leaves it as it is, and a key that occurs twice
  decodes into it twice.  A value of the wrong type makes the whole call fail; every caller of the
  program drops the variable then, so failure is \<open>None\<close>.
\<close>

definition stringInto :: "gostring \<Rightarrow> json \<Rightarrow> gostring option" where
  "stringInto old v = (case v of JStr b \<Rightarrow> Some (unquote b) | JNull \<Rightarrow> Some old | _ \<Rightarrow> None)"

definition intInto :: "int \<Rightarrow> json \<Rightarrow> int option" where
  "intInto old v = (case v of JNum l \<Rightarrow> parseInt l | JNull \<Rightarrow> Some old | _ \<Rightarrow> None)"

fun decodeAll :: "('a \<Rightarrow> 'b \<Rightarrow> 'a option) \<Rightarrow> 'a \<Rightarrow> 'b list \<Rightarrow> 'a option" where
  "decodeAll f x [] = Some x"
| "decodeAll f x (v # vs) = (case f x v of None \<Rightarrow> None | Some y \<Rightarrow> decodeAll f y vs)"

text \<open>
  A slice variable is its backing array, as far as it was ever written, and its length: decoding
  an array decodes element \<open>i\<close> into what the backing array holds there.
\<close>

fun elemsInto :: "('a \<Rightarrow> json \<Rightarrow> 'a option) \<Rightarrow> 'a \<Rightarrow> 'a list \<Rightarrow> json list \<Rightarrow> 'a list option" where
  "elemsInto f z bs [] = Some bs"
| "elemsInto f z bs (v # vs) =
     (case f (case bs of [] \<Rightarrow> z | b # _ \<Rightarrow> b) v of
        None \<Rightarrow> None
      | Some x \<Rightarrow> map_option ((#) x) (elemsInto f z (drop 1 bs) vs))"

definition sliceInto ::
  "('a \<Rightarrow> json \<Rightarrow> 'a option) \<Rightarrow> 'a \<Rightarrow> 'a list \<times> nat \<Rightarrow> json \<Rightarrow> ('a list \<times> nat) option" where
  "sliceInto f z sl v =
     (case v of
        JArr es \<Rightarrow>
          if es = [] then Some ([], 0)
          else map_option (\<lambda>bs. (bs, length es)) (elemsInto f z (fst sl) (map snd es))
      | JNull \<Rightarrow> Some ([], 0)
      | _ \<Rightarrow> None)"

definition sliceOf :: "'a list \<times> nat \<Rightarrow> 'a list" where
  "sliceOf sl = take (snd sl) (fst sl)"

text \<open>
  Field names match keys up to case; of the characters beyond ASCII only U+017F and U+212A fold to
  letters.  All field names of the program are ASCII.
\<close>

definition foldRune :: "rune \<Rightarrow> rune" where
  "foldRune r =
     (if 97 \<le> r \<and> r \<le> 122 then r - 32 else if r = 383 then 83 else if r = 8490 then 75 else r)"

definition foldName :: "gostring \<Rightarrow> rune list" where
  "foldName s = map foldRune (runesOf s)"

definition isField :: "gostring \<Rightarrow> gostring \<Rightarrow> bool" where
  "isField name k = (foldName (unquote k) = foldName name)"

definition fieldRaws :: "gostring \<Rightarrow> (gostring \<times> gostring \<times> json) list \<Rightarrow> gostring list" where
  "fieldRaws name ms = map (\<lambda>(k, raw, v). raw) (filter (\<lambda>(k, raw, v). isField name k) ms)"

definition fieldValues :: "gostring \<Rightarrow> (gostring \<times> gostring \<times> json) list \<Rightarrow> json list" where
  "fieldValues name ms = map (\<lambda>(k, raw, v). v) (filter (\<lambda>(k, raw, v). isField name k) ms)"

text \<open>A field of type \<open>string\<close>, and one of type \<open>json.RawMessage\<close>.\<close>

definition stringField :: "gostring \<Rightarrow> (gostring \<times> gostring \<times> json) list \<Rightarrow> gostring option" where
  "stringField name ms = decodeAll stringInto [] (fieldValues name ms)"

definition intField :: "gostring \<Rightarrow> (gostring \<times> gostring \<times> json) list \<Rightarrow> int option" where
  "intField name ms = decodeAll intInto 0 (fieldValues name ms)"

definition rawField :: "gostring \<Rightarrow> (gostring \<times> gostring \<times> json) list \<Rightarrow> gostring" where
  "rawField name ms = (let rs = fieldRaws name ms in if rs = [] then [] else List.last rs)"

text \<open>\<open>Unmarshal\<close> into a fresh struct variable: \<open>None\<close> on an error, no members for \<open>null\<close>.\<close>

definition structOf :: "json \<Rightarrow> (gostring \<times> gostring \<times> json) list option" where
  "structOf v = (case v of JObj ms \<Rightarrow> Some ms | JNull \<Rightarrow> Some [] | _ \<Rightarrow> None)"

definition unmarshal :: "(json \<Rightarrow> 'a option) \<Rightarrow> gostring \<Rightarrow> 'a option" where
  "unmarshal f s = (case parseJSON s of None \<Rightarrow> None | Some (_, v) \<Rightarrow> f v)"

definition unmarshalString :: "gostring \<Rightarrow> gostring option" where
  "unmarshalString = unmarshal (stringInto [])"

definition unmarshalInt :: "gostring \<Rightarrow> int option" where
  "unmarshalInt = unmarshal (intInto 0)"

definition unmarshalInts :: "gostring \<Rightarrow> int list option" where
  "unmarshalInts = unmarshal (\<lambda>v. map_option sliceOf (sliceInto intInto 0 ([], 0) v))"

end
