(* ===== verification/JsonFacts.thy ===== *)
theory JsonFacts
  imports Json
begin

section \<open>Reading back what was written\<close>

text \<open>
  Facts on the JSON model: the recursion bound of the parser never runs out, a value is read the
  same way whatever follows it, and quoting and unquoting a string are inverse.  \<open>encodes\<close> is the
  relation the writers of the program are proved against: the text is read as the value wherever
  it stands.
\<close>

subsection \<open>Tokens\<close>

text \<open>What may follow a value.\<close>

definition stops :: "gostring \<Rightarrow> bool" where
  "stops t = (t = [] \<or> hd t \<in> {CHR '','', CHR '']'', CHR ''}''} \<or> isBlank (hd t))"

lemma stops_Cons [simp]: "stops (CHR '','' # t)" "stops (CHR '']'' # t)" "stops (CHR ''}'' # t)"
  "stops (CHR 0x0A # t)" "stops []"
  by (simp_all add: stops_def isBlank_def)

lemma skipSpace_Nil [simp]: "skipSpace [] = []"
  by (simp add: skipSpace_def)

lemma skipSpace_split: "\<exists>p. s = p @ skipSpace s"
  by (metis skipSpace_def takeWhile_dropWhile_id)

lemma skipSpace_keep [simp]: "\<not> isBlank c \<Longrightarrow> skipSpace (c # s) = c # s"
  by (simp add: skipSpace_def)

lemma skipSpace_blank [simp]: "isBlank c \<Longrightarrow> skipSpace (c # s) = skipSpace s"
  by (simp add: skipSpace_def)

lemma isBlank_simps [simp]: "isBlank (CHR '' '')" "isBlank (CHR 0x0A)" "\<not> isBlank (CHR '','')"
  "\<not> isBlank (CHR '']'')" "\<not> isBlank (CHR ''}'')" "\<not> isBlank (CHR '':'')" "\<not> isBlank (CHR 0x22)"
  "\<not> isBlank (CHR ''{'')" "\<not> isBlank (CHR ''['')"
  by (simp_all add: isBlank_def)

lemma skipSpace_more: "skipSpace s \<noteq> [] \<Longrightarrow> skipSpace (s @ t) = skipSpace s @ t"
  by (induction s) (auto simp: skipSpace_def)

lemma upto_append [simp]: "upto (p @ r) r = p"
  by (simp add: upto_def)

lemma stringBody_split: "stringBody s = Some (b, r) \<Longrightarrow> s = b @ [CHR 0x22] @ r"
  by (induction s arbitrary: b r rule: stringBody.induct)
    (auto simp del: char.simps split: if_splits list.splits)

lemma hex4_more: "hex4 s \<noteq> None \<Longrightarrow> hex4 (s @ t) = hex4 s"
  by (cases s rule: hex4.cases) simp_all

lemma stringBody_more: "stringBody s = Some (b, r) \<Longrightarrow> stringBody (s @ t) = Some (b, r @ t)"
proof (induction s arbitrary: b r rule: stringBody.induct)
  case (2 c s)
  show ?case
  proof (cases "c = CHR 0x5C")
    case True
    with 2 show ?thesis
      by (cases s) (auto simp del: char.simps simp: hex4_more split: if_split_asm)
  qed (use 2 in \<open>auto split: if_split_asm\<close>)
qed simp

abbreviation ends_at :: "gostring \<Rightarrow> gostring \<Rightarrow> bool" where
  "ends_at r t \<equiv> r \<noteq> [] \<or> stops t"

lemma stops_hd:
  assumes "stops (c # t)"
  shows "\<not> isDigit c" "\<not> isPoint c" "\<not> isExp c"
  using assms by (auto simp: stops_def isBlank_def isDigit_def isPoint_def isExp_def)

lemma digits1_split: "digits1 s = Some r \<Longrightarrow> \<exists>p. p \<noteq> [] \<and> s = p @ r"
  using takeWhile_dropWhile_id [of isDigit s]
  by (auto simp: digits1_def digits_def split: if_split_asm simp del: takeWhile_dropWhile_id dest!: sym [of "_ @ _"])

lemma digits1_more:
  assumes "digits1 s = Some r" "ends_at r t"
  shows "digits1 (s @ t) = Some (r @ t)"
proof (cases "r = []")
  case True
  then have "\<forall>c \<in> set s. isDigit c" "s \<noteq> []" and t: "stops t"
    using assms by (auto simp: digits1_def digits_def split: if_split_asm)
  moreover have "takeWhile isDigit t = []" "dropWhile isDigit t = t"
    using stops_hd(1) t by (cases t; force)+
  ultimately show ?thesis
    using True by (simp add: digits1_def digits_def)
next
  case False
  then obtain c where "c \<in> set s" "\<not> isDigit c"
    using assms(1) by (auto simp: digits1_def digits_def dropWhile_eq_Nil_conv split: if_split_asm)
  then show ?thesis
    using assms(1) by (auto simp: digits1_def digits_def split: if_split_asm)
qed

lemma dropIf_split: "\<exists>p. s = p @ dropIf P s"
  by (cases s) (auto intro: exI [of _ "[]"])

lemma dropIf_more: "s \<noteq> [] \<Longrightarrow> dropIf P (s @ t) = dropIf P s @ t"
  by (cases s) auto

lemma numInt_split: "numInt s = Some r \<Longrightarrow> \<exists>p. p \<noteq> [] \<and> s = p @ r"
  using digits1_split by (cases s) (auto split: if_split_asm)

lemma numFrac_split: "numFrac s = Some r \<Longrightarrow> \<exists>p. s = p @ r"
proof (cases s)
  case (Cons c s')
  moreover assume "numFrac s = Some r"
  ultimately show ?thesis
    using digits1_split [of s' r] by (auto split: if_split_asm intro: exI [of _ "[]"])
qed simp

lemma numExp_split: "numExp s = Some r \<Longrightarrow> \<exists>p. s = p @ r"
proof (cases s)
  case (Cons c s')
  assume "numExp s = Some r"
  with Cons consider "digits1 (dropIf isSign s') = Some r" | "s = r" by (auto split: if_split_asm)
  then show ?thesis
  proof cases
    case 1
    then show ?thesis using digits1_split [OF 1] dropIf_split [of s' isSign] Cons
      by (metis append.assoc append_Cons)
  qed simp
qed simp

lemma numInt_more: "numInt s = Some r \<Longrightarrow> ends_at r t \<Longrightarrow> numInt (s @ t) = Some (r @ t)"
  using digits1_more [of s r t] by (cases s) (auto split: if_split_asm)

lemma numFrac_more: "numFrac s = Some r \<Longrightarrow> ends_at r t \<Longrightarrow> numFrac (s @ t) = Some (r @ t)"
  using digits1_more [of "tl s" r t] stops_hd(2) [of "hd t" "tl t"]
  by (cases s; cases t) (auto split: if_split_asm)

lemma numExp_more:
  assumes "numExp s = Some r" "ends_at r t"
  shows "numExp (s @ t) = Some (r @ t)"
proof (cases s)
  case Nil
  then show ?thesis using assms stops_hd(3) [of "hd t" "tl t"] by (cases t) auto
next
  case (Cons c s')
  show ?thesis
  proof (cases "isExp c")
    case True
    then have d: "digits1 (dropIf isSign s') = Some r" using assms(1) Cons by simp
    then have "s' \<noteq> []" by (auto simp: digits1_def digits_def)
    then show ?thesis using digits1_more [OF d assms(2)] Cons True by (simp add: dropIf_more)
  next
    case False
    then show ?thesis using assms(1) Cons by auto
  qed
qed

lemma number_split:
  assumes "number s = Some (l, r)"
  shows "s = l @ r \<and> l \<noteq> []"
proof -
  from assms obtain r1 r2 where r: "numInt (dropIf isMinus s) = Some r1" "numFrac r1 = Some r2"
      "numExp r2 = Some r" "l = upto s r"
    by (auto simp: number_def split: option.splits)
  obtain p1 p2 p3 where "dropIf isMinus s = p1 @ r1" "p1 \<noteq> []" "r1 = p2 @ r2" "r2 = p3 @ r"
    using numInt_split [OF r(1)] numFrac_split [OF r(2)] numExp_split [OF r(3)] by blast
  moreover obtain q where "s = q @ dropIf isMinus s" using dropIf_split by blast
  ultimately have "s = (q @ p1 @ p2 @ p3) @ r" "q @ p1 @ p2 @ p3 \<noteq> []" by simp_all
  then show ?thesis using r(4) by (metis upto_append)
qed

lemma number_more:
  assumes "number s = Some (l, r)" "ends_at r t"
  shows "number (s @ t) = Some (l, r @ t)"
proof -
  have s: "s = l @ r" "s \<noteq> []" using number_split [OF assms(1)] by auto
  from assms(1) obtain r1 r2 where r: "numInt (dropIf isMinus s) = Some r1" "numFrac r1 = Some r2"
      "numExp r2 = Some r"
    by (auto simp: number_def split: option.splits)
  have e: "ends_at r2 t" "ends_at r1 t"
    using numExp_split [OF r(3)] numFrac_split [OF r(2)] assms(2) by auto
  have "upto (s @ t) (r @ t) = l" using s(1) upto_append [of l "r @ t"] by simp
  then show ?thesis
    using numInt_more [OF r(1) e(2)] numFrac_more [OF r(2) e(1)] numExp_more [OF r(3) assms(2)]
    by (simp add: number_def dropIf_more [OF s(2)])
qed

subsection \<open>Values\<close>

text \<open>A parser eats a non-empty prefix of its text.\<close>

abbreviation eats :: "('a \<times> gostring) option \<Rightarrow> gostring \<Rightarrow> bool" where
  "eats res s \<equiv> (\<forall>v r. res = Some (v, r) \<longrightarrow> (\<exists>p. p \<noteq> [] \<and> s = p @ r))"

lemma keyword_split: "w \<noteq> [] \<Longrightarrow> eats (keyword w v s) s"
  by (auto simp: keyword_def prefix_def split: if_split_asm)

lemma eats_skip: "\<exists>p. p \<noteq> [] \<and> t = p @ r \<Longrightarrow> \<exists>q. s = q @ t \<Longrightarrow> \<exists>p. p \<noteq> [] \<and> s = p @ r"
  by (metis append.assoc append_is_Nil_conv)

lemma eats_tl: "prefix [c] (skipSpace s) \<Longrightarrow> \<exists>p. p \<noteq> [] \<and> s = p @ tl (skipSpace s)"
proof -
  assume "prefix [c] (skipSpace s)"
  then obtain t where "skipSpace s = [c] @ t" by (auto simp: prefix_def)
  with skipSpace_split [of s] show ?thesis by (metis append.assoc append_is_Nil_conv list.sel(3) not_Cons_self2 append_Cons append_Nil)
qed

lemma eats_trans: "\<exists>p. p \<noteq> [] \<and> s = p @ t \<Longrightarrow> \<exists>q. t = q @ r \<Longrightarrow> \<exists>p. p \<noteq> [] \<and> s = p @ r"
  by (metis append.assoc append_is_Nil_conv)

lemma eats_weak: "\<exists>p. p \<noteq> [] \<and> s = p @ r \<Longrightarrow> \<exists>p. s = p @ r"
  by blast

lemma jvalue_split:
  "eats (jvalue n d s) s" "eats (jelems n d s) s" "eats (jmembers n d s) s"
proof (induction n d s and n d s and n d s rule: jvalue_jelems_jmembers.induct)
  case (2 n d s)
  show ?case
  proof (cases s)
    case (Cons c r)
    have tail: "\<exists>p. p \<noteq> [] \<and> s = p @ t" if "\<exists>q. r = q @ t" for t
      using that Cons by (metis append_Cons list.distinct(1))
    have into: "\<exists>p. p \<noteq> [] \<and> s = p @ t" if "\<exists>p. skipSpace r = p @ t" for t
      by (rule tail) (use that skipSpace_split [of r] in \<open>metis append.assoc\<close>)
    have close: "\<exists>p. skipSpace r = p @ tl (skipSpace r)"
      by (cases "skipSpace r") (auto intro: exI [of _ "[_]"])
    show ?thesis
    proof (intro allI impI)
      fix v t assume j: "jvalue (Suc n) d s = Some (v, t)"
      consider "c = CHR 0x22" | "c = CHR ''[''" | "c = CHR ''{''"
        | "c \<notin> {CHR 0x22, CHR ''['', CHR ''{''}" by blast
      then show "\<exists>p. p \<noteq> [] \<and> s = p @ t"
      proof cases
        case 1
        then show ?thesis using j Cons stringBody_split [of r] by (auto intro!: tail)
      next
        case 2
        then have "\<exists>p. skipSpace r = p @ t"
          using j Cons "2.IH"(1) [OF Cons] close by (fastforce split: if_split_asm)
        then show ?thesis by (rule into)
      next
        case 3
        then have "\<exists>p. skipSpace r = p @ t"
          using j Cons "2.IH"(2) [OF Cons] close by (fastforce split: if_split_asm)
        then show ?thesis by (rule into)
      next
        case 4
        then show ?thesis
          using j Cons number_split [of s] keyword_split [of "''true''" _ s]
            keyword_split [of "''false''" _ s] keyword_split [of "''null''" _ s]
          by (auto split: if_split_asm)
      qed
    qed
  qed simp
next
  case (4 n d s)
  show ?case
  proof (intro allI impI)
    fix es t assume j: "jelems (Suc n) d s = Some (es, t)"
    then obtain v r where v: "jvalue n d s = Some (v, r)" by (auto split: option.splits)
    let ?r = "skipSpace r"
    have s: "\<exists>p. p \<noteq> [] \<and> s = p @ r" using "4.IH"(1) v by blast
    have "\<exists>q. r = q @ t"
    proof (cases "prefix '','' ?r")
      case True
      then obtain es' where "jelems n d (skipSpace (tl ?r)) = Some (es', t)"
        using j v by (auto simp: Let_def)
      then have "\<exists>p. skipSpace (tl ?r) = p @ t"
        using "4.IH"(2) [OF v] True by blast
      then show ?thesis
        using eats_tl [OF True] skipSpace_split [of "tl ?r"] by (metis append.assoc)
    next
      case False
      then have "prefix '']'' ?r" "t = tl ?r" using j v by (auto simp: Let_def split: if_split_asm)
      then show ?thesis using eats_tl by blast
    qed
    then show "\<exists>p. p \<noteq> [] \<and> s = p @ t" by (rule eats_trans [OF s])
  qed
next
  case (6 n d s)
  show ?case
  proof (intro allI impI)
    fix es t assume j: "jmembers (Suc n) d s = Some (es, t)"
    then obtain k r where k: "prefix [CHR 0x22] s" "stringBody (tl s) = Some (k, r)"
      by (auto split: option.splits if_splits)
    let ?r1 = "skipSpace r" let ?s1 = "skipSpace (tl ?r1)"
    obtain v r2 where c: "prefix '':'' ?r1" and v: "jvalue n d ?s1 = Some (v, r2)"
      using j k by (auto simp: Let_def split: option.splits if_splits)
    have "s = (CHR 0x22 # k @ [CHR 0x22]) @ r"
      using k stringBody_split by (cases s) auto
    then have s: "\<exists>p. p \<noteq> [] \<and> s = p @ r" by blast
    have r: "\<exists>p. r = p @ ?s1" using eats_tl [OF c] skipSpace_split [of "tl ?r1"] by (metis append.assoc)
    have r2: "\<exists>p. p \<noteq> [] \<and> ?s1 = p @ r2"
      using "6.IH"(1) [of "(k, r)"] k c v by blast
    have "\<exists>q. r2 = q @ t"
    proof (cases "prefix '','' (skipSpace r2)")
      case True
      then obtain es' where "jmembers n d (skipSpace (tl (skipSpace r2))) = Some (es', t)"
        using j k c v by (auto simp: Let_def)
      then have "\<exists>p. skipSpace (tl (skipSpace r2)) = p @ t"
        using "6.IH"(2) [of "(k, r)"] k c v True by blast
      then show ?thesis
        using eats_tl [OF True] skipSpace_split [of "tl (skipSpace r2)"] by (metis append.assoc)
    next
      case False
      then have "prefix ''}'' (skipSpace r2)" "t = tl (skipSpace r2)"
        using j k c v by (auto simp: Let_def split: if_split_asm)
      then show ?thesis using eats_tl by blast
    qed
    with r r2 have "\<exists>q. r = q @ t" by (metis append.assoc)
    then show "\<exists>p. p \<noteq> [] \<and> s = p @ t" by (rule eats_trans [OF s])
  qed
qed simp_all

text \<open>A larger bound, a deeper limit and more text after the value change nothing.\<close>

lemma prefix_char: "prefix [c] s \<longleftrightarrow> s \<noteq> [] \<and> hd s = c"
  by (cases s) auto

lemma upto_more: "\<exists>p. s = p @ r \<Longrightarrow> upto (s @ t) (r @ t) = upto s r"
  using upto_append [of _ "r @ t"] by fastforce

lemma skip_prefix_more:
  assumes "prefix [c] (skipSpace s)"
  shows "skipSpace (s @ t) = skipSpace s @ t" "tl (skipSpace s @ t) = tl (skipSpace s) @ t"
    "prefix [c] (skipSpace s @ t)" "skipSpace s @ t \<noteq> t" "s @ t \<noteq> t"
proof -
  have ne: "skipSpace s \<noteq> []" using assms by auto
  then show "skipSpace (s @ t) = skipSpace s @ t" "tl (skipSpace s @ t) = tl (skipSpace s) @ t"
    by (simp_all add: skipSpace_more)
  show "prefix [c] (skipSpace s @ t)" using assms ne by (simp add: prefix_char)
  show "skipSpace s @ t \<noteq> t" "s @ t \<noteq> t" using ne by auto
qed

lemma keyword_more: "keyword w v s = Some x \<Longrightarrow> keyword w v (s @ t) = Some (fst x, snd x @ t)"
  by (auto simp: keyword_def prefix_def split: if_split_asm)

lemma nonempty_skip: "f \<noteq> None \<Longrightarrow> (\<And>x. f = Some x \<Longrightarrow> \<exists>p. p \<noteq> [] \<and> s = p @ snd x) \<Longrightarrow> s \<noteq> []"
  by auto

lemma jelems_nonempty: "jelems n d s = Some (es, r) \<Longrightarrow> s \<noteq> []"
  and jmembers_nonempty: "jmembers n d s = Some (ms, r) \<Longrightarrow> s \<noteq> []"
  and jvalue_nonempty: "jvalue n d s = Some (v, r) \<Longrightarrow> s \<noteq> []"
  using jvalue_split [where n = n and d = d and s = s] by blast+

lemma jvalue_more:
  "jvalue n d s = Some (v, r) \<Longrightarrow> n \<le> m \<Longrightarrow> d \<le> d' \<Longrightarrow> ends_at r t \<Longrightarrow> jvalue m d' (s @ t) = Some (v, r @ t)"
  "jelems n d s = Some (es, r) \<Longrightarrow> n \<le> m \<Longrightarrow> d \<le> d' \<Longrightarrow> jelems m d' (s @ t) = Some (es, r @ t)"
  "jmembers n d s = Some (ms, r) \<Longrightarrow> n \<le> m \<Longrightarrow> d \<le> d' \<Longrightarrow> jmembers m d' (s @ t) = Some (ms, r @ t)"
proof (induction n d s and n d s and n d s arbitrary: v r m d' and es r m d' and ms r m d'
    rule: jvalue_jelems_jmembers.induct)
  case (2 n d s)
  from "2.prems" obtain c u where s: "s = c # u" by (cases s) auto
  from "2.prems" obtain m' where m: "m = Suc m'" "n \<le> m'" by (cases m) auto
  note more = skip_prefix_more [where s = u and t = t]
  consider "c = CHR 0x22" | "c = CHR ''[''" | "c = CHR ''{''"
    | (num) "c \<notin> {CHR 0x22, CHR ''['', CHR ''{''}" "c = CHR ''-'' \<or> isDigit c"
    | (word) "c \<notin> {CHR 0x22, CHR ''['', CHR ''{''}" "\<not> (c = CHR ''-'' \<or> isDigit c)" by blast
  then show ?case
  proof cases
    case 1
    then show ?thesis using "2.prems" m s stringBody_more [of u] by auto
  next
    case 2
    show ?thesis
    proof (cases "prefix '']'' (skipSpace u)")
      case True
      then show ?thesis using "2.prems" 2 m s more [OF True] by (simp split: if_split_asm)
    next
      case False
      then obtain es where es: "jelems n (d - 1) (skipSpace u) = Some (es, r)" "v = JArr es" "0 < d"
        using "2.prems" 2 s by (auto split: if_split_asm)
      have ne: "skipSpace u \<noteq> []" using jelems_nonempty [OF es(1)] .
      have "jelems m' (d' - 1) (skipSpace u @ t) = Some (es, r @ t)"
        by (rule "2.IH"(1) [OF s]) (use 2 es False m "2.prems" in \<open>simp_all add: diff_le_mono\<close>)
      then show ?thesis
        using es 2 m s False "2.prems"(3) ne by (simp add: skipSpace_more prefix_char)
    qed
  next
    case 3
    show ?thesis
    proof (cases "prefix ''}'' (skipSpace u)")
      case True
      then show ?thesis using "2.prems" 3 m s more [OF True] by (simp split: if_split_asm)
    next
      case False
      then obtain es where es: "jmembers n (d - 1) (skipSpace u) = Some (es, r)" "v = JObj es" "0 < d"
        using "2.prems" 3 s by (auto split: if_split_asm)
      have ne: "skipSpace u \<noteq> []" using jmembers_nonempty [OF es(1)] .
      have "jmembers m' (d' - 1) (skipSpace u @ t) = Some (es, r @ t)"
        by (rule "2.IH"(2) [OF s]) (use 3 es False m "2.prems" in \<open>simp_all add: diff_le_mono\<close>)
      then show ?thesis
        using es 3 m s False "2.prems"(3) ne by (simp add: skipSpace_more prefix_char)
    qed
  next
    case num
    then show ?thesis
      using "2.prems" m s number_more [of s _ r t] by auto
  next
    case word
    then show ?thesis
      using "2.prems" m s keyword_more [of _ _ s "(v, r)" t] by (auto split: if_split_asm)
  qed
next
  case (4 n d s)
  from "4.prems" obtain m' where m: "m = Suc m'" "n \<le> m'" by (cases m) auto
  from "4.prems" obtain v u where v: "jvalue n d s = Some (v, u)" by (auto split: option.splits)
  note more = skip_prefix_more [where s = u and t = t]
  have up: "upto (s @ t) (u @ t) = upto s u" using jvalue_split(1) [of n d s] v upto_more by blast
  show ?case
  proof (cases "prefix '','' (skipSpace u)")
    case True
    then obtain es' where es': "jelems n d (skipSpace (tl (skipSpace u))) = Some (es', r)"
        "es = (upto s u, v) # es'"
      using "4.prems" v by (auto simp: Let_def)
    have "jvalue m' d' (s @ t) = Some (v, u @ t)"
      by (rule "4.IH"(1) [OF v]) (use m "4.prems" more [OF True] in simp_all)
    moreover have "jelems m' d' (skipSpace (tl (skipSpace u)) @ t) = Some (es', r @ t)"
      by (rule "4.IH"(2) [OF v]) (use m "4.prems" True es' in simp_all)
    ultimately show ?thesis
      using m up es' more [OF True] jelems_nonempty [OF es'(1)] by (simp add: Let_def skipSpace_more)
  next
    case False
    then have r: "prefix '']'' (skipSpace u)" "r = tl (skipSpace u)" "es = [(upto s u, v)]"
      using "4.prems" v by (auto simp: Let_def split: if_split_asm)
    have "jvalue m' d' (s @ t) = Some (v, u @ t)"
      by (rule "4.IH"(1) [OF v]) (use m "4.prems" more [OF r(1)] in simp_all)
    then show ?thesis
      using m up r more [OF r(1)] by (simp add: Let_def prefix_char)
  qed
next
  case (6 n d s)
  from "6.prems" obtain m' where m: "m = Suc m'" "n \<le> m'" by (cases m) auto
  from "6.prems" obtain k w where k: "prefix [CHR 0x22] s" "stringBody (tl s) = Some (k, w)"
    by (auto split: option.splits if_splits)
  let ?s1 = "skipSpace (tl (skipSpace w))"
  obtain v u where c: "prefix '':'' (skipSpace w)" and v: "jvalue n d ?s1 = Some (v, u)"
    using "6.prems" k by (auto simp: Let_def split: option.splits if_splits)
  note more = skip_prefix_more [where s = u and t = t]
  have up: "upto (?s1 @ t) (u @ t) = upto ?s1 u" using jvalue_split(1) [of n d ?s1] v upto_more by blast
  have str: "prefix [CHR 0x22] (s @ t)" "stringBody (tl (s @ t)) = Some (k, w @ t)"
    using k stringBody_more [OF k(2), of t] by (cases s; simp)+
  have ne1: "?s1 \<noteq> []" using jvalue_nonempty [OF v] .
  note more1 = skip_prefix_more [OF c, of t]
  show ?case
  proof (cases "prefix '','' (skipSpace u)")
    case True
    then obtain ms' where ms': "jmembers n d (skipSpace (tl (skipSpace u))) = Some (ms', r)"
        "ms = (k, upto ?s1 u, v) # ms'"
      using "6.prems" k c v by (auto simp: Let_def)
    have "jvalue m' d' (?s1 @ t) = Some (v, u @ t)"
      by (rule "6.IH"(1) [where y = w]) (use k c v m "6.prems" more [OF True] in simp_all)
    moreover have "jmembers m' d' (skipSpace (tl (skipSpace u)) @ t) = Some (ms', r @ t)"
      by (rule "6.IH"(2) [where y = w]) (use k c v m "6.prems" True ms' in simp_all)
    ultimately show ?thesis
      using m up str ms' more1 ne1 more [OF True] jmembers_nonempty [OF ms'(1)]
      by (simp add: Let_def skipSpace_more)
  next
    case False
    then have r: "prefix ''}'' (skipSpace u)" "r = tl (skipSpace u)" "ms = [(k, upto ?s1 u, v)]"
      using "6.prems" k c v by (auto simp: Let_def split: if_split_asm)
    have "jvalue m' d' (?s1 @ t) = Some (v, u @ t)"
      by (rule "6.IH"(1) [where y = w]) (use k c v m "6.prems" more [OF r(1)] in simp_all)
    then show ?thesis
      using m up str r more1 ne1 more [OF r(1)] by (simp add: Let_def skipSpace_more prefix_char)
  qed
qed simp_all

subsection \<open>The recursion bound\<close>

lemma skipSpace_length: "length (skipSpace s) \<le> length s"
  by (simp add: skipSpace_def length_dropWhile_le)

lemma stringBody_length: "stringBody s = Some (b, r) \<Longrightarrow> length r < length s"
  using stringBody_split by fastforce

lemma jvalue_length: "jvalue n d s = Some (v, r) \<Longrightarrow> length r < length s"
  using jvalue_split(1) [of n d s] by fastforce

lemma tl_skip_length: "prefix [c] (skipSpace s) \<Longrightarrow> length (skipSpace (tl (skipSpace s))) < length s"
  using skipSpace_length [of s] skipSpace_length [of "tl (skipSpace s)"]
  by (cases "skipSpace s") auto

lemma jvalue_step:
  "(2 * length s < n \<longrightarrow> jvalue (Suc n) d s = jvalue n d s) \<and>
   (2 * length s + 1 < n \<longrightarrow> jelems (Suc n) d s = jelems n d s \<and> jmembers (Suc n) d s = jmembers n d s)"
proof (induction n arbitrary: d s)
  case (Suc n)
  have v: "jvalue (Suc (Suc n)) d s = jvalue (Suc n) d s" if "2 * length s < Suc n"
  proof (cases s)
    case (Cons c r)
    have "2 * length (skipSpace r) + 1 < n" using that Cons skipSpace_length [of r] by simp
    with Suc.IH have IH: "jelems (Suc n) (d - 1) (skipSpace r) = jelems n (d - 1) (skipSpace r)"
      "jmembers (Suc n) (d - 1) (skipSpace r) = jmembers n (d - 1) (skipSpace r)" by blast+
    show ?thesis using Cons by (simp only: jvalue.simps(2) IH list.case)
  qed simp
  have e: "jelems (Suc (Suc n)) d s = jelems (Suc n) d s" if "2 * length s + 1 < Suc n"
  proof (cases "jvalue n d s")
    case None
    then show ?thesis using Suc.IH [of s d] that by simp
  next
    case (Some x)
    obtain v r where x: "jvalue n d s = Some (v, r)" using Some by (cases x) auto
    have "jelems (Suc n) d (skipSpace (tl (skipSpace r))) = jelems n d (skipSpace (tl (skipSpace r)))"
      if "prefix '','' (skipSpace r)"
      using Suc.IH [of "skipSpace (tl (skipSpace r))" d] tl_skip_length [OF that] jvalue_length [OF x]
        \<open>2 * length s + 1 < Suc n\<close> by simp
    then show ?thesis
      using x Suc.IH [of s d] that by (simp add: Let_def)
  qed
  have m: "jmembers (Suc (Suc n)) d s = jmembers (Suc n) d s" if lt: "2 * length s + 1 < Suc n"
  proof (cases "prefix [CHR 0x22] s \<and> (\<exists>k r. stringBody (tl s) = Some (k, r) \<and> prefix '':'' (skipSpace r))")
    case True
    then obtain k w where k: "prefix [CHR 0x22] s" "stringBody (tl s) = Some (k, w)" "prefix '':'' (skipSpace w)"
      by blast
    let ?s1 = "skipSpace (tl (skipSpace w))"
    have len: "length ?s1 < length s"
      using tl_skip_length [OF k(3)] stringBody_length [OF k(2)] by simp
    have v1: "jvalue (Suc n) d ?s1 = jvalue n d ?s1" using Suc.IH [of ?s1 d] len lt by simp
    show ?thesis
    proof (cases "jvalue n d ?s1")
      case None
      then show ?thesis using k v1 by (simp add: Let_def)
    next
      case (Some x)
      obtain v r where x: "jvalue n d ?s1 = Some (v, r)" using Some by (cases x) auto
      have "jmembers (Suc n) d (skipSpace (tl (skipSpace r))) = jmembers n d (skipSpace (tl (skipSpace r)))"
        if "prefix '','' (skipSpace r)"
        using Suc.IH [of "skipSpace (tl (skipSpace r))" d] tl_skip_length [OF that] jvalue_length [OF x]
          len lt by simp
      then show ?thesis using k v1 x by (simp add: Let_def)
    qed
  next
    case False
    then show ?thesis by (auto simp: Let_def split: option.splits)
  qed
  show ?case using v e m by blast
qed simp

lemma jvalue_fuel: "2 * length s < n \<Longrightarrow> jvalue n d s = jvalue (2 * length s + 1) d s"
proof (induction n)
  case (Suc n)
  show ?case
  proof (cases "2 * length s < n")
    case True
    then show ?thesis using Suc jvalue_step [of s n d] by simp
  next
    case False
    then have "n = 2 * length s" using Suc by simp
    then show ?thesis by simp
  qed
qed simp

declare jvalue.simps [simp del] jelems.simps [simp del] jmembers.simps [simp del]

subsection \<open>Texts that are read as a value\<close>

definition encodes :: "nat \<Rightarrow> gostring \<Rightarrow> json \<Rightarrow> bool" where
  "encodes d b v = (b \<noteq> [] \<and> \<not> isBlank (hd b) \<and> jvalue (2 * length b + 1) d b = Some (v, []))"

lemma encodes_read:
  "encodes d b v \<Longrightarrow> 2 * length b < n \<Longrightarrow> stops t \<Longrightarrow> jvalue n d (b @ t) = Some (v, t)"
  using jvalue_more(1) [of "2 * length b + 1" d b v "[]" n d t] by (simp add: encodes_def)

lemma encodes_skip: "encodes d b v \<Longrightarrow> skipSpace (b @ t) = b @ t"
  by (cases b) (simp_all add: encodes_def)

lemma encodes_deeper: "encodes d b v \<Longrightarrow> d \<le> d' \<Longrightarrow> encodes d' b v"
  using jvalue_more(1) [of "2 * length b + 1" d b v "[]" _ d' "[]"] by (simp add: encodes_def)

lemma encodes_parseJSON [roundtrips]: "encodes maxNestingDepth b v \<Longrightarrow> parseJSON b = Some (b, v)"
  using encodes_skip [of maxNestingDepth b v "[]"] by (simp add: encodes_def parseJSON_def upto_def)

lemma skip_blanks: "list_all isBlank w \<Longrightarrow> skipSpace (w @ s) = skipSpace s"
  by (induction w) auto

lemma stops_blanks: "list_all isBlank w \<Longrightarrow> stops w"
  by (cases w) (auto simp: stops_def)

lemma parseJSON_blanks [roundtrips]:
  assumes "encodes maxNestingDepth b v" "list_all isBlank p" "list_all isBlank q"
  shows "parseJSON (p @ b @ q) = Some (b, v)"
proof -
  have "jvalue (2 * length (b @ q) + 1) maxNestingDepth (b @ q) = Some (v, q)"
    by (rule encodes_read [OF assms(1)]) (use assms(3) stops_blanks in simp_all)
  then show ?thesis
    using assms encodes_skip [OF assms(1), of q] skip_blanks [of q "[]"]
    by (simp add: parseJSON_def skip_blanks upto_def)
qed

lemma parseJSON_encodes:
  assumes "parseJSON b = Some (b, v)"
  shows "encodes maxNestingDepth b v"
proof -
  let ?s = "skipSpace b"
  from assms obtain r where v: "jvalue (2 * length ?s + 1) maxNestingDepth ?s = Some (v, r)"
      and b: "b = upto ?s r"
    by (auto simp: parseJSON_def Let_def split: option.splits if_split_asm)
  have len: "length b = length ?s - length r" using arg_cong [OF b, of length] by (simp add: upto_def)
  moreover have "length r < length ?s" using jvalue_length [OF v] .
  moreover have "length ?s \<le> length b" by (rule skipSpace_length)
  ultimately have "length r = 0" "length ?s = length b" by linarith+
  then have "r = []" by simp
  have s: "?s = b" using skipSpace_split [of b] \<open>length ?s = length b\<close> by (metis append_eq_append_conv append_Nil)
  then have "b \<noteq> []" using v jvalue_nonempty by auto
  moreover have "\<not> isBlank (hd b)" using s \<open>b \<noteq> []\<close> by (metis skipSpace_def hd_dropWhile)
  ultimately show ?thesis using v s \<open>r = []\<close> by (simp add: encodes_def)
qed

text \<open>Strings.\<close>

definition plainBody :: "gostring \<Rightarrow> bool" where
  "plainBody k = (\<forall>t. stringBody (k @ CHR 0x22 # t) = Some (k, t))"

lemma encodes_string:
  "plainBody k \<Longrightarrow> encodes d ([CHR 0x22] @ k @ [CHR 0x22]) (JStr k)"
  by (simp add: encodes_def plainBody_def jvalue.simps)

text \<open>Objects: the members with the blanks \<open>w\<close> after each colon and comma.\<close>

fun memsText :: "gostring \<Rightarrow> (gostring \<times> gostring \<times> json) list \<Rightarrow> gostring" where
  "memsText w [] = []"
| "memsText w ((k, b, v) # ms) =
     [CHR 0x22] @ k @ [CHR 0x22] @ '':'' @ w @ b @ (if ms = [] then [] else '','' @ w @ memsText w ms)"

fun elemsText :: "gostring \<Rightarrow> (gostring \<times> json) list \<Rightarrow> gostring" where
  "elemsText w [] = []"
| "elemsText w ((b, v) # es) = b @ (if es = [] then [] else '','' @ w @ elemsText w es)"

abbreviation member_ok :: "nat \<Rightarrow> gostring \<times> gostring \<times> json \<Rightarrow> bool" where
  "member_ok d \<equiv> \<lambda>(k, b, v). plainBody k \<and> encodes d b v"

lemma memsText_keep: "ms \<noteq> [] \<Longrightarrow> skipSpace (memsText w ms @ t) = memsText w ms @ t"
  by (cases ms) auto

lemma elemsText_keep:
  "es \<noteq> [] \<Longrightarrow> list_all (\<lambda>(b, v). encodes d b v) es \<Longrightarrow> skipSpace (elemsText w es @ t) = elemsText w es @ t"
  by (cases es) (auto simp: encodes_skip)

lemma jmembers_text:
  assumes "ms \<noteq> []" "list_all (member_ok d) ms" "list_all isBlank w"
    "2 * length (memsText w ms) + 1 \<le> n"
  shows "jmembers n d (memsText w ms @ ''}'' @ t) = Some (ms, t)"
  using assms
proof (induction ms arbitrary: n)
  case (Cons m ms)
  obtain k b v where m: "m = (k, b, v)" by (cases m)
  from Cons.prems obtain n' where n: "n = Suc n'" by (cases n) auto
  have ok: "plainBody k" "encodes d b v" using Cons.prems m by auto
  let ?rest = "(if ms = [] then [] else '','' @ w @ memsText w ms) @ ''}'' @ t"
  have v: "jvalue n' d (b @ ?rest) = Some (v, ?rest)"
    by (rule encodes_read [OF ok(2)]) (use Cons.prems n m in \<open>auto split: if_splits\<close>)
  show ?case
  proof (cases "ms = []")
    case True
    then show ?thesis
      using n m ok v Cons.prems encodes_skip [OF ok(2), of "''}'' @ t"]
      by (simp add: jmembers.simps(2) plainBody_def Let_def skip_blanks)
  next
    case False
    have "jmembers n' d (memsText w ms @ ''}'' @ t) = Some (ms, t)"
      by (rule Cons.IH) (use Cons.prems False n m in auto)
    then show ?thesis
      using n m ok v False Cons.prems encodes_skip [OF ok(2), of "?rest"] memsText_keep [OF False, of w "''}'' @ t"]
      by (simp add: jmembers.simps(2) plainBody_def Let_def skip_blanks)
  qed
qed simp

lemma jelems_text:
  assumes "es \<noteq> []" "list_all (\<lambda>(b, v). encodes d b v) es" "list_all isBlank w"
    "2 * length (elemsText w es) + 2 \<le> n"
  shows "jelems n d (elemsText w es @ '']'' @ t) = Some (es, t)"
  using assms
proof (induction es arbitrary: n)
  case (Cons e es)
  obtain b v where m: "e = (b, v)" by (cases e)
  from Cons.prems obtain n' where n: "n = Suc n'" by (cases n) auto
  have ok: "encodes d b v" using Cons.prems m by auto
  let ?rest = "(if es = [] then [] else '','' @ w @ elemsText w es) @ '']'' @ t"
  have v: "jvalue n' d (b @ ?rest) = Some (v, ?rest)"
    by (rule encodes_read [OF ok]) (use Cons.prems n m in \<open>auto split: if_splits\<close>)
  show ?case
  proof (cases "es = []")
    case True
    then show ?thesis using n m v by (simp add: jelems.simps(2) Let_def)
  next
    case False
    have es: "list_all (\<lambda>(b, v). encodes d b v) es" using Cons.prems by simp
    have "jelems n' d (elemsText w es @ '']'' @ t) = Some (es, t)"
      by (rule Cons.IH) (use Cons.prems False n m in auto)
    then show ?thesis
      using n m v False Cons.prems elemsText_keep [OF False es, of w "'']'' @ t"]
      by (simp add: jelems.simps(2) Let_def skip_blanks)
  qed
qed simp

lemma encodes_object:
  assumes "list_all (member_ok d) ms" "list_all isBlank w"
  shows "encodes (Suc d) (''{'' @ memsText w ms @ ''}'') (JObj ms)"
proof (cases "ms = []")
  case True
  then show ?thesis by (simp add: encodes_def jvalue.simps numeral_eq_Suc)
next
  case False
  then have "\<not> prefix ''}'' (memsText w ms @ ''}'')" by (cases ms) auto
  then show ?thesis
    using False jmembers_text [OF False assms, of "Suc (Suc (Suc (Suc (2 * length (memsText w ms)))))" "[]"] memsText_keep [OF False, of w "''}''"]
    by (simp add: encodes_def jvalue.simps)
qed

lemma encodes_array:
  assumes "list_all (\<lambda>(b, v). encodes d b v) es" "list_all isBlank w"
  shows "encodes (Suc d) (''['' @ elemsText w es @ '']'') (JArr es)"
proof (cases "es = []")
  case True
  then show ?thesis by (simp add: encodes_def jvalue.simps numeral_eq_Suc)
next
  case False
  have "\<not> prefix '']'' (elemsText w es @ '']'')"
  proof
    assume p: "prefix '']'' (elemsText w es @ '']'')"
    obtain b v es' where es: "es = (b, v) # es'" using False by (cases es) auto
    then have e: "encodes d b v" using assms by simp
    then have "hd b = CHR '']''" using p es by (cases b) (auto simp: encodes_def)
    then show False using e by (cases b) (auto simp: encodes_def isDigit_def jvalue.simps)
  qed
  then show ?thesis
    using False jelems_text [OF False assms, of "Suc (Suc (Suc (Suc (2 * length (elemsText w es)))))" "[]"] elemsText_keep [OF False assms(1), of w "'']''"]
    by (simp add: encodes_def jvalue.simps)
qed

subsection \<open>Strings\<close>

lemma quoteBody_Nil [simp]: "quoteBody [] = []"
  by (subst quoteBody.simps) simp

lemma unquote_Nil [simp]: "unquote [] = []"
  by (subst unquote.simps) simp

lemma quoteBody_ascii: "bv c < RuneSelf \<Longrightarrow> quoteBody (c # s) = escByte c @ quoteBody s"
  by (subst quoteBody.simps) simp

lemma unquote_ascii: "bv c < RuneSelf \<Longrightarrow> c \<noteq> CHR 0x5C \<Longrightarrow> unquote (c # s) = c # unquote s"
  by (subst unquote.simps) simp

lemma hexVal_hexDigit: "n < 16 \<Longrightarrow> hexVal (hexDigit n) = Some n"
  by (auto simp: hexVal_def hexDigit_def isDigit_def)

text \<open>No byte above ASCII, and no hexadecimal digit, is special to the scanner.\<close>

definition calm :: "char \<Rightarrow> bool" where
  "calm c = (c \<noteq> CHR 0x22 \<and> c \<noteq> CHR 0x5C \<and> 32 \<le> bv c)"

lemma stringBody_calm:
  "list_all calm w \<Longrightarrow> stringBody (w @ s) = map_option (apfst ((@) w)) (stringBody s)"
  by (induction w) (auto simp: calm_def option.map_comp comp_def map_option_case split: option.split)

lemma calm_high: "128 \<le> bv c \<Longrightarrow> calm c"
  by (auto simp: calm_def)

lemma hexDigits_calm: "list_all (\<lambda>n. calm (hexDigit n)) [0..<16]"
  by code_simp

lemma calm_hexDigit: "n < 16 \<Longrightarrow> calm (hexDigit n)"
  using hexDigits_calm by (simp add: list_all_iff del: upt_rec_numeral)

lemma calm_htmlSafe: "htmlSafe c \<Longrightarrow> calm c"
  by (auto simp: calm_def htmlSafe_def)

lemma plain_calm: "list_all calm k \<Longrightarrow> plainBody k"
  by (simp add: plainBody_def stringBody_calm)

text \<open>One escape: the scanner passes it, and \<open>unquote\<close> reads the byte.\<close>

lemma hex4_u00:
  "hex4 (CHR ''0'' # CHR ''0'' # hexDigit (bv c div 16) # hexDigit (bv c mod 16) # s) = Some (bv c)"
proof -
  have "bv c div 16 < 16" using bv_less [of c] by linarith
  then have "hexVal (hexDigit (bv c div 16)) = Some (bv c div 16)" "hexVal (hexDigit (bv c mod 16)) = Some (bv c mod 16)"
    by (simp_all add: hexVal_hexDigit)
  moreover have "hexVal (CHR ''0'') = Some 0" by code_simp
  ultimately show ?thesis by simp
qed

lemma stringBody_u:
  "hex4 (w @ s) \<noteq> None \<Longrightarrow> list_all calm w \<Longrightarrow>
   stringBody (CHR 0x5C # CHR ''u'' # w @ s) =
     map_option (apfst ((@) (CHR 0x5C # CHR ''u'' # w))) (stringBody s)"
  by (simp add: stringBody_calm option.map_comp comp_def map_option_case split: option.split)

lemma getu4_u: "getu4 (CHR 0x5C # CHR ''u'' # s) = hex4 s"
  by (simp add: getu4_def)

lemma unquote_u:
  assumes "hex4 s = Some r" "\<not> isSurrogate r"
  shows "unquote (CHR 0x5C # CHR ''u'' # s) = EncodeRune r @ unquote (drop 4 s)"
  by (subst unquote.simps) (simp add: getu4_u assms)

lemma unquote_escape:
  assumes "e \<noteq> CHR ''u''"
  shows "unquote (CHR 0x5C # e # s) = unescape e # unquote s"
  by (subst unquote.simps) (simp add: getu4_def assms assms [symmetric])

lemma stringBody_escape:
  "isEscape e \<Longrightarrow> stringBody (CHR 0x5C # e # s) = map_option (apfst ((@) [CHR 0x5C, e])) (stringBody s)"
  by (simp add: map_option_case split: option.split)

lemma escapes: "isEscape (CHR 0x22)" "isEscape (CHR 0x5C)" "isEscape (CHR ''b'')" "isEscape (CHR ''f'')"
  "isEscape (CHR ''n'')" "isEscape (CHR ''r'')" "isEscape (CHR ''t'')"
  by (simp_all add: isEscape_def)

lemma escByte_cases:
  obtains (safe) "htmlSafe c" "escByte c = [c]"
    | (short) e where "escByte c = [CHR 0x5C, e]" "isEscape e" "e \<noteq> CHR ''u''" "unescape e = c"
    | (hex) "escByte c = u00 c"
proof -
  consider "htmlSafe c" | "c \<in> {CHR 0x22, CHR 0x5C, CHR 0x08, CHR 0x0C, CHR 0x0A, CHR 0x0D, CHR 0x09}"
    | "escByte c = u00 c"
    by (cases "htmlSafe c"; cases "c \<in> {CHR 0x22, CHR 0x5C, CHR 0x08, CHR 0x0C, CHR 0x0A, CHR 0x0D, CHR 0x09}")
      (simp_all add: escByte_def)
  then show ?thesis
  proof cases
    case 2
    then have "\<exists>e. escByte c = [CHR 0x5C, e] \<and> isEscape e \<and> e \<noteq> CHR ''u'' \<and> unescape e = c"
      by (elim insertE emptyE) (simp_all add: escByte_def htmlSafe_def isEscape_def unescape_def)
    then show ?thesis using short by blast
  qed (use that in \<open>auto simp: escByte_def\<close>)
qed

lemma stringBody_escByte: "stringBody (escByte c @ s) = map_option (apfst ((@) (escByte c))) (stringBody s)"
proof (cases rule: escByte_cases [of c])
  case safe
  then show ?thesis using stringBody_calm [of "[c]" s] by (simp add: calm_htmlSafe)
next
  case (short e)
  then show ?thesis using stringBody_escape [of e s] by simp
next
  case hex
  have "bv c div 16 < 16" using bv_less [of c] by linarith
  moreover have "calm (CHR ''0'')" by code_simp
  ultimately show ?thesis
    using stringBody_u [of "[CHR ''0'', CHR ''0'', hexDigit (bv c div 16), hexDigit (bv c mod 16)]" s]
      hex4_u00 [of c s] by (simp add: hex u00_def calm_hexDigit)
qed

lemma unquote_escByte:
  assumes "bv c < RuneSelf"
  shows "unquote (escByte c @ s) = c # unquote s"
proof (cases rule: escByte_cases [of c])
  case safe
  then show ?thesis using assms unquote_ascii [of c s] by (simp add: htmlSafe_def)
next
  case (short e)
  then show ?thesis by (simp add: unquote_escape)
next
  case hex
  have "\<not> isSurrogate (bv c)" "scalar (bv c)" "EncodeRune (bv c) = [c]"
    using assms by (simp_all add: isSurrogate_def scalar_def EncodeRune_def RuneSelf_def Let_def)
  then show ?thesis
    using unquote_u [OF hex4_u00 [of c s]] by (simp add: hex u00_def)
qed

text \<open>What \<open>Marshal\<close> writes for a string is a string, and it is read as its runes.\<close>

lemma byte_bv [simp]: "byte (bv c) = c"
  by simp

lemma lead2: "192 \<le> b \<Longrightarrow> b < 224 \<Longrightarrow> 192 + b mod 32 = (b::nat)"
  and lead3: "224 \<le> b \<Longrightarrow> b < 240 \<Longrightarrow> 224 + b mod 16 = b"
  and lead4: "240 \<le> b \<Longrightarrow> b < 248 \<Longrightarrow> 240 + b mod 8 = b"
  and cont: "128 \<le> b \<Longrightarrow> b < 192 \<Longrightarrow> 128 + b mod 64 = b"
  using payload(1) [of "b - 192"] payload(2) [of "b - 224"] payload(3) [of "b - 240"] payload(4) [of "b - 128"]
  by simp_all

lemma EncodeRune_multibyte:
  "128 \<le> r \<Longrightarrow> r < 2048 \<Longrightarrow> EncodeRune r = [byte (192 + r div 64), byte (128 + r mod 64)]"
  "scalar r \<Longrightarrow> 2048 \<le> r \<Longrightarrow> r < 65536 \<Longrightarrow>
     EncodeRune r = [byte (224 + r div 4096), byte (128 + r div 64 mod 64), byte (128 + r mod 64)]"
  "scalar r \<Longrightarrow> 65536 \<le> r \<Longrightarrow>
     EncodeRune r = [byte (240 + r div 262144), byte (128 + r div 4096 mod 64),
       byte (128 + r div 64 mod 64), byte (128 + r mod 64)]"
  by (simp_all add: EncodeRune_def Let_def scalar_def)

lemma base64:
  fixes h k l m :: nat
  assumes "k < 64" "l < 64" "m < 64"
  shows "(h * 64 + k) div 64 = h" "(h * 64 + k) mod 64 = k"
    and "(h * 4096 + k * 64 + l) div 4096 = h" "(h * 4096 + k * 64 + l) div 64 mod 64 = k"
      "(h * 4096 + k * 64 + l) mod 64 = l"
    and "(h * 262144 + k * 4096 + l * 64 + m) div 262144 = h"
      "(h * 262144 + k * 4096 + l * 64 + m) div 4096 mod 64 = k"
      "(h * 262144 + k * 4096 + l * 64 + m) div 64 mod 64 = l"
      "(h * 262144 + k * 4096 + l * 64 + m) mod 64 = m"
proof -
  have two: "k < 64 \<Longrightarrow> (h * 64 + k) div 64 = h" "k < 64 \<Longrightarrow> (h * 64 + k) mod 64 = k" for h k :: nat
    by simp_all
  then show "(h * 64 + k) div 64 = h" "(h * 64 + k) mod 64 = k" using assms(1) by blast+
  have three: "h * 4096 + k * 64 + l = (h * 64 + k) * 64 + l" for h k l :: nat by simp
  have four: "h * 262144 + k * 4096 + l * 64 + m = ((h * 64 + k) * 64 + l) * 64 + m" by simp
  show "(h * 4096 + k * 64 + l) div 4096 = h" "(h * 4096 + k * 64 + l) div 64 mod 64 = k"
    "(h * 4096 + k * 64 + l) mod 64 = l"
    unfolding three div64_steps by (simp_all only: two assms)
  show "(h * 262144 + k * 4096 + l * 64 + m) div 262144 = h"
      "(h * 262144 + k * 4096 + l * 64 + m) div 4096 mod 64 = k"
      "(h * 262144 + k * 4096 + l * 64 + m) div 64 mod 64 = l"
      "(h * 262144 + k * 4096 + l * 64 + m) mod 64 = m"
    unfolding four div64_steps by (simp_all only: two assms)
qed

lemma DecodeRune_bytes2:
  assumes "194 \<le> bv a" "bv a < 224" "okCont (bv b)"
  shows "EncodeRune ((bv a mod 32) * 64 + bv b mod 64) = [a, b]"
proof -
  define h k where "h = bv a mod 32" and "k = bv b mod 64"
  have eq: "192 + h = bv a" "128 + k = bv b"
    using lead2 cont assms by (auto simp: okCont_def h_def k_def)
  have lt: "2 \<le> h" "h < 32" "k < 64" using eq assms by (simp_all add: okCont_def)
  have "128 \<le> h * 64 + k" "h * 64 + k < 2048" using lt by linarith+
  then show ?thesis
    unfolding h_def [symmetric] k_def [symmetric]
    by (simp only: EncodeRune_multibyte(1) base64(1,2) [OF lt(3,3,3)] eq byte_bv)
qed

lemma DecodeRune_bytes3:
  assumes "224 \<le> bv a" "bv a < 240" "okSecond (bv a) (bv b)" "okCont (bv c)"
  shows "EncodeRune ((bv a mod 16) * 4096 + (bv b mod 64) * 64 + bv c mod 64) = [a, b, c]"
proof -
  define h k l where "h = bv a mod 16" and "k = bv b mod 64" and "l = bv c mod 64"
  have eq: "224 + h = bv a" "128 + k = bv b" "128 + l = bv c"
    using lead3 cont assms
    by (auto simp: okCont_def okSecond_def accLo_def accHi_def h_def k_def l_def split: if_splits)
  have lt: "h < 16" "k < 64" "l < 64" using eq assms by (simp_all add: h_def k_def l_def)
  have lo: "h = 0 \<Longrightarrow> 32 \<le> k" and hi: "h = 13 \<Longrightarrow> k < 32"
    using assms(3) unfolding eq [symmetric] by (simp_all add: okSecond_def accLo_def accHi_def)
  have "2048 \<le> h * 4096 + k * 64 + l" "h * 4096 + k * 64 + l < 65536"
    using lo lt by (cases "h = 0"; linarith)+
  moreover have "scalar (h * 4096 + k * 64 + l)"
  proof -
    consider "h < 13" | "h = 13" | "14 \<le> h" by linarith
    then show ?thesis
    proof cases
      case 1
      then have "h * 4096 + k * 64 + l < 55296" using lt by linarith
      then show ?thesis by (simp add: scalar_def)
    next
      case 2
      then have "h * 4096 + k * 64 + l < 55296" using hi lt by linarith
      then show ?thesis by (simp add: scalar_def)
    next
      case 3
      then have "57344 \<le> h * 4096 + k * 64 + l" "h * 4096 + k * 64 + l < 1114112" using lt by linarith+
      then show ?thesis by (simp add: scalar_def)
    qed
  qed
  ultimately show ?thesis
    unfolding h_def [symmetric] k_def [symmetric] l_def [symmetric]
    by (simp only: EncodeRune_multibyte(2) base64(3-5) [OF lt(2,3,3)] eq byte_bv)
qed

lemma DecodeRune_bytes4:
  assumes "240 \<le> bv a" "bv a < 245" "okSecond (bv a) (bv b)" "okCont (bv c)" "okCont (bv d)"
  shows "EncodeRune ((bv a mod 8) * 262144 + (bv b mod 64) * 4096 + (bv c mod 64) * 64 + bv d mod 64) = [a, b, c, d]"
proof -
  define h k l m where "h = bv a mod 8" and "k = bv b mod 64" and "l = bv c mod 64" and "m = bv d mod 64"
  have eq: "240 + h = bv a" "128 + k = bv b" "128 + l = bv c" "128 + m = bv d"
    using lead4 cont assms
    by (auto simp: okCont_def okSecond_def accLo_def accHi_def h_def k_def l_def m_def split: if_splits)
  have lt: "h < 5" "k < 64" "l < 64" "m < 64" using eq assms by (simp_all add: k_def l_def m_def)
  have lo: "h = 0 \<Longrightarrow> 16 \<le> k" and hi: "h = 4 \<Longrightarrow> k < 16"
    using assms(3) unfolding eq [symmetric] by (simp_all add: okSecond_def accLo_def accHi_def)
  have lower: "65536 \<le> h * 262144 + k * 4096 + l * 64 + m"
    using lo by (cases "h = 0"; linarith)
  have "h * 262144 + k * 4096 + l * 64 + m < 1114112"
    using hi lt by (cases "h = 4"; linarith)
  with lower have "scalar (h * 262144 + k * 4096 + l * 64 + m)" by (simp add: scalar_def)
  with lower show ?thesis
    unfolding h_def [symmetric] k_def [symmetric] l_def [symmetric] m_def [symmetric]
    by (simp only: EncodeRune_multibyte(3) base64(6-9) [OF lt(2-4)] eq byte_bv)
qed

text \<open>A rune that decodes without error is encoded as the bytes it was read from.\<close>

lemma DecodeRune_bytes:
  assumes "s \<noteq> []" "DecodeRune s \<noteq> (RuneError, 1)"
  shows "EncodeRune (fst (DecodeRune s)) = take (snd (DecodeRune s)) s"
proof -
  let ?a = "bv (s ! 0)"
  have s: "s = s ! 0 # drop 1 s" using assms(1) by (cases s) auto
  have take1: "take (Suc 0) s = [s ! 0]" using assms(1) by (cases s) auto
  have take2: "1 < length s \<Longrightarrow> take 2 s = [s ! 0, s ! 1]"
    and take3: "2 < length s \<Longrightarrow> take 3 s = [s ! 0, s ! 1, s ! 2]"
    and take4: "3 < length s \<Longrightarrow> take 4 s = [s ! 0, s ! 1, s ! 2, s ! 3]"
    by (simp_all add: take_Suc_conv_app_nth numeral_eq_Suc take1)
  consider "?a < RuneSelf" | "194 \<le> ?a" "?a < 224" | "224 \<le> ?a" "?a < 240" | "240 \<le> ?a" "?a < 245"
    using assms by (fastforce simp: DecodeRune_def seqLen_def Let_def split: if_splits)
  then show ?thesis
  proof cases
    case 1
    then have "EncodeRune ?a = [s ! 0]" by (simp add: EncodeRune_def scalar_def RuneSelf_def Let_def)
    then show ?thesis using 1 assms(1) s by (simp add: DecodeRune_def take_Suc_conv_app_nth)
  next
    case 2
    then have n: "seqLen ?a = 2" "\<not> ?a < RuneSelf" by (simp_all add: seqLen_def RuneSelf_def)
    with 2 assms have "1 < length s" "okSecond ?a (bv (s ! 1))"
      by (auto simp: DecodeRune_def Let_def split: if_splits)
    moreover from this 2 have "okCont (bv (s ! 1))"
      by (auto simp: okCont_def okSecond_def accLo_def accHi_def split: if_splits)
    ultimately show ?thesis
      using n assms(1) DecodeRune_bytes2 [OF 2] take2 by (simp add: DecodeRune_def Let_def)
  next
    case 3
    then have n: "seqLen ?a = 3" "\<not> ?a < RuneSelf" by (simp_all add: seqLen_def RuneSelf_def)
    with 3 assms have "2 < length s" "okSecond ?a (bv (s ! 1))" "okCont (bv (s ! 2))"
      by (auto simp: DecodeRune_def Let_def split: if_splits)
    then show ?thesis
      using n assms(1) DecodeRune_bytes3 [OF 3] take3 by (simp add: DecodeRune_def Let_def)
  next
    case 4
    then have n: "seqLen ?a = 4" "\<not> ?a < RuneSelf" by (simp_all add: seqLen_def RuneSelf_def)
    with 4 assms have "3 < length s" "okSecond ?a (bv (s ! 1))" "okCont (bv (s ! 2))" "okCont (bv (s ! 3))"
      by (auto simp: DecodeRune_def Let_def split: if_splits)
    then show ?thesis
      using n assms(1) DecodeRune_bytes4 [OF 4] take4 by (simp add: DecodeRune_def Let_def)
  qed
qed

lemma EncodeRune_high: "128 \<le> r \<Longrightarrow> list_all (\<lambda>c. 128 \<le> bv c) (EncodeRune r)"
  by (auto simp: EncodeRune_def Let_def RuneError_def scalar_def bv_byte)

lemma DecodeRune_high:
  assumes "s \<noteq> []" "\<not> bv (hd s) < RuneSelf" "DecodeRune s \<noteq> (RuneError, 1)"
  shows "128 \<le> fst (DecodeRune s)"
proof (rule ccontr)
  assume "\<not> 128 \<le> fst (DecodeRune s)"
  then have "EncodeRune (fst (DecodeRune s)) = [byte (fst (DecodeRune s))]" "fst (DecodeRune s) < 128"
    by (simp_all add: EncodeRune_def scalar_def Let_def)
  moreover have "0 < snd (DecodeRune s)" using DecodeRune_pos [OF assms(1)] .
  ultimately have "hd s = byte (fst (DecodeRune s))"
    using DecodeRune_bytes [OF assms(1,3)] by (metis hd_take list.sel(1))
  then show False using assms(2) \<open>fst (DecodeRune s) < 128\<close> by (simp add: bv_byte RuneSelf_def)
qed

lemma quoteBody_bad:
  "s \<noteq> [] \<Longrightarrow> \<not> bv (hd s) < RuneSelf \<Longrightarrow> DecodeRune s = (RuneError, 1) \<Longrightarrow>
   quoteBody s = CHR 0x5C # CHR ''u'' # ''fffd'' @ quoteBody (tl s)"
  by (subst quoteBody.simps) simp

lemma quoteBody_sep:
  "s \<noteq> [] \<Longrightarrow> \<not> bv (hd s) < RuneSelf \<Longrightarrow> DecodeRune s \<noteq> (RuneError, 1) \<Longrightarrow>
   fst (DecodeRune s) = 8232 \<or> fst (DecodeRune s) = 8233 \<Longrightarrow>
   quoteBody s = CHR 0x5C # CHR ''u'' # (''202'' @ [hexDigit (fst (DecodeRune s) mod 16)]) @
     quoteBody (drop (snd (DecodeRune s)) s)"
  by (subst quoteBody.simps) (simp add: Let_def)

lemma quoteBody_run:
  "s \<noteq> [] \<Longrightarrow> \<not> bv (hd s) < RuneSelf \<Longrightarrow> DecodeRune s \<noteq> (RuneError, 1) \<Longrightarrow>
   \<not> (fst (DecodeRune s) = 8232 \<or> fst (DecodeRune s) = 8233) \<Longrightarrow>
   quoteBody s = take (snd (DecodeRune s)) s @ quoteBody (drop (snd (DecodeRune s)) s)"
  by (subst quoteBody.simps) (simp add: Let_def)

lemma hex4_fffd: "hex4 (''fffd'' @ s) = Some 65533" "list_all calm ''fffd''"
  by (simp add: hexVal_def isDigit_def) code_simp

lemma hex4_202:
  assumes "r = 8232 \<or> r = 8233"
  shows "hex4 ((''202'' @ [hexDigit (r mod 16)]) @ s) = Some r" "list_all calm (''202'' @ [hexDigit (r mod 16)])"
proof -
  have "hexVal (CHR ''2'') = Some 2" "hexVal (CHR ''0'') = Some 0" by code_simp+
  then show "hex4 ((''202'' @ [hexDigit (r mod 16)]) @ s) = Some r"
    using assms by (auto simp: hexVal_hexDigit)
  have "list_all calm ''202''" by code_simp
  then show "list_all calm (''202'' @ [hexDigit (r mod 16)])" by (simp add: calm_hexDigit)
qed

text \<open>The four cases of a quoted string.\<close>

lemma quoteBody_induct [case_names Nil ascii bad sep run]:
  assumes "P []"
    and "\<And>c s. bv c < RuneSelf \<Longrightarrow> P s \<Longrightarrow> P (c # s)"
    and "\<And>s. s \<noteq> [] \<Longrightarrow> \<not> bv (hd s) < RuneSelf \<Longrightarrow> DecodeRune s = (RuneError, 1) \<Longrightarrow> P (tl s) \<Longrightarrow> P s"
    and "\<And>s. s \<noteq> [] \<Longrightarrow> \<not> bv (hd s) < RuneSelf \<Longrightarrow> DecodeRune s \<noteq> (RuneError, 1) \<Longrightarrow>
      fst (DecodeRune s) = 8232 \<or> fst (DecodeRune s) = 8233 \<Longrightarrow> P (drop (snd (DecodeRune s)) s) \<Longrightarrow> P s"
    and "\<And>s. s \<noteq> [] \<Longrightarrow> \<not> bv (hd s) < RuneSelf \<Longrightarrow> DecodeRune s \<noteq> (RuneError, 1) \<Longrightarrow>
      \<not> (fst (DecodeRune s) = 8232 \<or> fst (DecodeRune s) = 8233) \<Longrightarrow> P (drop (snd (DecodeRune s)) s) \<Longrightarrow> P s"
  shows "P s"
proof (induction s rule: quoteBody.induct)
  case (1 s)
  show ?case
  proof (cases "s = []")
    case False
    then have hd: "s = hd s # tl s" by simp
    show ?thesis
    proof (cases "bv (hd s) < RuneSelf")
      case True
      then show ?thesis using assms(2) [of "hd s" "tl s"] "1.IH"(1) hd False by simp
    next
      case high: False
      show ?thesis
      proof (cases "DecodeRune s = (RuneError, 1)")
        case True
        then show ?thesis using assms(3) [of s] "1.IH"(2) high False by blast
      next
        case ok: False
        then have "P (drop (snd (DecodeRune s)) s)" using "1.IH"(3) high False by blast
        then show ?thesis using assms(4,5) [of s] ok high False by blast
      qed
    qed
  qed (use assms(1) in simp)
qed

lemma stringBody_quoteBody: "stringBody (quoteBody s @ CHR 0x22 # t) = Some (quoteBody s, t)"
proof (induction s rule: quoteBody_induct)
  case (ascii c s)
  then show ?case by (simp add: quoteBody_ascii stringBody_escByte)
next
  case (bad s)
  then show ?case
    using stringBody_u [of "''fffd''" "quoteBody (tl s) @ CHR 0x22 # t"] hex4_fffd
    by (simp add: quoteBody_bad)
next
  case (sep s)
  let ?w = "''202'' @ [hexDigit (fst (DecodeRune s) mod 16)]"
  show ?case
    using stringBody_u [of ?w "quoteBody (drop (snd (DecodeRune s)) s) @ CHR 0x22 # t"]
      hex4_202 [OF sep(4)] sep(5) unfolding quoteBody_sep [OF sep(1-4)] by simp
next
  case (run s)
  have "list_all calm (take (snd (DecodeRune s)) s)"
    using EncodeRune_high [OF DecodeRune_high [OF run(1-3)]] calm_high
    unfolding DecodeRune_bytes [OF run(1,3)] by (auto simp: list_all_iff)
  then show ?case using run by (simp add: quoteBody_run stringBody_calm)
qed simp

lemma plainBody_quoteBody: "plainBody (quoteBody s)"
  by (simp add: plainBody_def stringBody_quoteBody)

lemma scalar_DecodeRune:
  assumes "s \<noteq> []" "DecodeRune s \<noteq> (RuneError, 1)"
  shows "scalar (fst (DecodeRune s))"
proof (rule ccontr)
  assume no: "\<not> scalar (fst (DecodeRune s))"
  then have "EncodeRune (fst (DecodeRune s)) = EncodeRune RuneError" by (simp add: EncodeRune_def)
  then have "DecodeRune s = DecodeRune (EncodeRune RuneError)"
    using DecodeRune_take(2) [OF assms] DecodeRune_bytes [OF assms] by simp
  also have "\<dots> = (RuneError, length (EncodeRune RuneError))"
    by (rule DecodeRune_EncodeRune_alone) simp
  finally show False using no by simp
qed

lemma not_isSurrogate: "scalar r \<Longrightarrow> \<not> isSurrogate r"
  by (auto simp: scalar_def isSurrogate_def)

lemma unquote_run:
  assumes "s \<noteq> []" "\<not> bv (hd s) < RuneSelf" "hd s \<noteq> CHR 0x5C"
  shows "unquote s = EncodeRune (fst (DecodeRune s)) @ unquote (drop (snd (DecodeRune s)) s)"
  by (subst unquote.simps) (use assms in simp)

text \<open>\<open>string([]rune(s))\<close>: every invalid byte replaced by U+FFFD.\<close>

definition sanitize :: "gostring \<Rightarrow> gostring" where
  "sanitize s = concat (map EncodeRune (runesOf s))"

lemma sanitize_Nil [simp]: "sanitize [] = []"
  by (simp add: sanitize_def)

lemma sanitize_step:
  "s \<noteq> [] \<Longrightarrow> sanitize s = EncodeRune (fst (DecodeRune s)) @ sanitize (drop (snd (DecodeRune s)) s)"
  by (simp add: sanitize_def runesOf_step [of s])

lemma sanitize_ascii: "bv c < RuneSelf \<Longrightarrow> sanitize (c # s) = c # sanitize s"
  using sanitize_step [of "c # s"] DecodeRune_ascii [of "c # s"]
  by (simp add: EncodeRune_def scalar_def RuneSelf_def Let_def)

lemma sanitize_valid: "ValidString s \<Longrightarrow> sanitize s = s"
proof (induction s rule: ValidString.induct)
  case (1 s)
  show ?case
  proof (cases "s = []")
    case False
    then have ok: "DecodeRune s \<noteq> (RuneError, 1)" "ValidString (drop (snd (DecodeRune s)) s)"
      using 1 ValidString_step [of s] by auto
    then show ?thesis
      using False "1.IH" DecodeRune_bytes [OF False] sanitize_step [OF False] by simp
  qed simp
qed

lemma unquote_quoteBody [roundtrips]: "unquote (quoteBody s) = sanitize s"
proof (induction s rule: quoteBody_induct)
  case (ascii c s)
  then show ?case by (simp add: quoteBody_ascii unquote_escByte sanitize_ascii)
next
  case (bad s)
  have "\<not> isSurrogate 65533" by (simp add: isSurrogate_def)
  moreover have "sanitize s = EncodeRune RuneError @ sanitize (tl s)"
    using sanitize_step [OF bad(1)] bad(3) by (simp add: drop_Suc)
  ultimately show ?case
    using bad unquote_u [OF hex4_fffd(1), of "quoteBody (tl s)"]
    by (simp add: quoteBody_bad RuneError_def)
next
  case (sep s)
  have "\<not> isSurrogate (fst (DecodeRune s))" using sep(4) by (auto simp: isSurrogate_def)
  from unquote_u [OF hex4_202(1) [OF sep(4)] this, of "quoteBody (drop (snd (DecodeRune s)) s)"]
  show ?case
    using sep(5) sanitize_step [OF sep(1)] unfolding quoteBody_sep [OF sep(1-4)] by simp
next
  case (run s)
  let ?n = "snd (DecodeRune s)"
  let ?q = "quoteBody (drop ?n s)"
  have d: "DecodeRune (take ?n s @ ?q) = DecodeRune s"
    using DecodeRune_append [OF DecodeRune_take(1)] DecodeRune_take(2) run(1,3) by simp
  have n: "0 < ?n" "?n \<le> length s" using DecodeRune_pos [OF run(1)] DecodeRune_le_length by auto
  have hd: "hd (take ?n s @ ?q) = hd s" "take ?n s @ ?q \<noteq> []"
    using n run(1) by (auto simp: hd_append hd_take)
  have "hd s \<noteq> CHR 0x5C" using run(2) by (auto simp: RuneSelf_def)
  then have "unquote (take ?n s @ ?q) = EncodeRune (fst (DecodeRune s)) @ unquote ?q"
    using unquote_run [OF hd(2)] run(2) n by (simp add: hd d)
  then show ?case using run(5) sanitize_step [OF run(1)] quoteBody_run [OF run(1-4)] by simp
qed simp

text \<open>A string written by \<open>Marshal\<close> is read back, up to invalid UTF-8.\<close>

lemma quote_encodes: "encodes d (quote s) (JStr (quoteBody s))"
  using encodes_string [OF plainBody_quoteBody] by (simp add: quote_def)

lemma unmarshalString_quote [roundtrips]: "unmarshalString (quote s) = Some (sanitize s)"
  by (simp add: unmarshalString_def unmarshal_def encodes_parseJSON [OF quote_encodes] stringInto_def
      unquote_quoteBody)

lemma list_all_drop: "list_all P s \<Longrightarrow> list_all P (drop n s)"
  by (auto simp: list_all_iff dest: in_set_dropD)

lemma unquote_calm: "list_all calm k \<Longrightarrow> unquote k = sanitize k"
proof (induction k rule: quoteBody_induct)
  case (ascii c s)
  then show ?case by (simp add: unquote_ascii sanitize_ascii calm_def)
next
  case (bad s)
  have c: "hd s \<noteq> CHR 0x5C" using bad(1,5) by (cases s) (auto simp: calm_def)
  have "tl s = drop (snd (DecodeRune s)) s" using bad(3) by (simp add: drop_Suc)
  then show ?case
    using unquote_run [OF bad(1,2) c] sanitize_step [OF bad(1)] bad(4,5) list_all_drop [of calm s] by simp
next
  case (sep s)
  have c: "hd s \<noteq> CHR 0x5C" using sep(1,6) by (cases s) (auto simp: calm_def)
  then show ?case
    using unquote_run [OF sep(1,2) c] sanitize_step [OF sep(1)] sep(5,6) list_all_drop [of calm s] by simp
next
  case (run s)
  have c: "hd s \<noteq> CHR 0x5C" using run(1,6) by (cases s) (auto simp: calm_def)
  then show ?case
    using unquote_run [OF run(1,2) c] sanitize_step [OF run(1)] run(5,6) list_all_drop [of calm s] by simp
qed simp

subsection \<open>Numbers\<close>

lemma natDec_Cons: "\<exists>c s. natDec n = c # s \<and> (c = CHR ''0'' \<longrightarrow> s = [])"
proof (induction n rule: natDec.induct)
  case (1 n)
  show ?case
  proof (cases "n < 10")
    case True
    then show ?thesis by (subst natDec.simps) simp
  next
    case False
    then obtain c s where cs: "natDec (n div 10) = c # s" "c = CHR ''0'' \<longrightarrow> s = []" using 1 by blast
    have "c \<noteq> CHR ''0''"
    proof
      assume "c = CHR ''0''"
      then have "decValue (natDec (n div 10)) = 0" using cs by simp
      then show False using False by (simp add: decValue_natDec)
    qed
    then show ?thesis using False cs by (subst natDec.simps) simp
  qed
qed

lemma numInt_natDec: "numInt (natDec n) = Some []"
proof -
  obtain c s where cs: "natDec n = c # s" "c = CHR ''0'' \<longrightarrow> s = []" using natDec_Cons by blast
  then have "list_all isDigit (c # s)" using natDec_isDigit [of n] by simp
  then show ?thesis using cs by (simp add: digits1_def digits_def list_all_iff)
qed

lemma number_itoa: "number (itoa i) = Some (itoa i, [])"
proof -
  have "\<not> isMinus c" if "isDigit c" for c using that by (auto simp: isMinus_def isDigit_def)
  then have "dropIf isMinus (natDec n) = natDec n" for n
    using natDec_hd [of n] by (cases "natDec n") auto
  moreover have "isMinus (CHR ''-'')" by (simp add: isMinus_def)
  ultimately have "dropIf isMinus (itoa i) = natDec (nat \<bar>i\<bar>)"
    by (simp add: itoa_def)
  then show ?thesis by (simp add: number_def numInt_natDec upto_def)
qed

lemma itoa_hd: "itoa i \<noteq> [] \<and> (hd (itoa i) = CHR ''-'' \<or> isDigit (hd (itoa i)))"
  using natDec_hd by (simp add: itoa_def)

lemma encodes_itoa: "encodes d (itoa i) (JNum (itoa i))"
proof -
  obtain c s where cs: "itoa i = c # s" "c = CHR ''-'' \<or> isDigit c" using itoa_hd [of i] by (cases "itoa i") auto
  then have "c \<noteq> CHR 0x22" "c \<noteq> CHR ''[''" "c \<noteq> CHR ''{''" "\<not> isBlank c"
    by (auto simp: isDigit_def isBlank_def)
  then show ?thesis
    using cs number_itoa [of i] by (simp add: encodes_def jvalue.simps(2))
qed

lemma encodes_words: "encodes d ''true'' (JBool True)" "encodes d ''false'' (JBool False)"
  "encodes d ''null'' JNull"
  by (simp_all add: encodes_def jvalue.simps keyword_def isDigit_def isBlank_def numeral_eq_Suc)

subsection \<open>Fields\<close>

text \<open>A key without escapes names a field when it folds to the same runes.\<close>

lemma isField_calm: "list_all calm k \<Longrightarrow> isField name k \<longleftrightarrow> foldName (sanitize k) = foldName name"
  by (simp add: isField_def unquote_calm)

lemma fieldValues_simps [simp]:
  "fieldValues name [] = []"
  "fieldValues name ((k, raw, v) # ms) = (if isField name k then [v] else []) @ fieldValues name ms"
  "fieldRaws name [] = []"
  "fieldRaws name ((k, raw, v) # ms) = (if isField name k then [raw] else []) @ fieldRaws name ms"
  by (simp_all add: fieldValues_def fieldRaws_def)

definition lowerKey :: "gostring \<Rightarrow> bool" where
  "lowerKey k = list_all (\<lambda>c. 97 \<le> bv c \<and> bv c \<le> 122 \<or> bv c = 95) k"

lemma lowerKey_calm: "lowerKey k \<Longrightarrow> list_all calm k"
  by (auto simp: lowerKey_def calm_def list_all_iff)

lemma runesOf_ascii: "list_all (\<lambda>c. bv c < RuneSelf) k \<Longrightarrow> runesOf k = map bv k"
proof (induction k)
  case (Cons c k)
  then show ?case using runesOf_step [of "c # k"] DecodeRune_ascii [of "c # k"] by simp
qed simp

lemma lowerKey_ascii: "lowerKey k \<Longrightarrow> list_all (\<lambda>c. bv c < RuneSelf) k"
  by (auto simp: lowerKey_def list_all_iff RuneSelf_def)

lemma sanitize_lowerKey: "lowerKey k \<Longrightarrow> sanitize k = k"
proof (induction k)
  case (Cons c k)
  then show ?case using lowerKey_ascii [of "c # k"] by (simp add: sanitize_ascii lowerKey_def)
qed simp

lemma foldName_lowerKey:
  assumes "lowerKey k" "lowerKey n"
  shows "foldName k = foldName n \<longleftrightarrow> k = n"
proof -
  have eq: "foldName x = map (\<lambda>c. foldRune (bv c)) x" if "lowerKey x" for x
    using runesOf_ascii [OF lowerKey_ascii [OF that]] by (simp add: foldName_def)
  have key: "x = y" if "97 \<le> x \<and> x \<le> 122 \<or> x = 95" "97 \<le> y \<and> y \<le> 122 \<or> y = 95" "foldRune x = foldRune y"
    for x y using that by (auto simp: foldRune_def split: if_splits)
  have "inj_on (\<lambda>c. foldRune (bv c)) (set k \<union> set n)"
  proof (rule inj_onI)
    fix c d assume "c \<in> set k \<union> set n" "d \<in> set k \<union> set n" and f: "foldRune (bv c) = foldRune (bv d)"
    then have "97 \<le> bv c \<and> bv c \<le> 122 \<or> bv c = 95" "97 \<le> bv d \<and> bv d \<le> 122 \<or> bv d = 95"
      using assms by (auto simp: lowerKey_def list_all_iff)
    from key [OF this f] have "bv c = bv d" .
    then show "c = d" by simp
  qed
  then show ?thesis by (simp add: eq assms inj_on_map_eq_map)
qed

text \<open>Among keys of lower-case letters and underscores, a field matches its own key only.\<close>

lemma isField_lower: "lowerKey k \<Longrightarrow> lowerKey name \<Longrightarrow> isField name k \<longleftrightarrow> k = name"
  by (simp add: isField_calm lowerKey_calm sanitize_lowerKey foldName_lowerKey)

lemma plainBody_lower: "lowerKey k \<Longrightarrow> plainBody k"
  by (intro plain_calm lowerKey_calm)

subsection \<open>What \<open>Marshal\<close> writes\<close>

text \<open>
  The value the text of a Go value is read as, its nesting, and the values that hold no raw
  message: for them \<open>Marshal\<close> cannot fail.
\<close>

abbreviation text_of :: "goval \<Rightarrow> gostring" where
  "text_of g \<equiv> the (marshal g)"

fun json_of :: "goval \<Rightarrow> json" where
  "json_of GNil = JNull"
| "json_of (GBool b) = JBool b"
| "json_of (GInt i) = JNum (itoa i)"
| "json_of (GStr s) = JStr (quoteBody s)"
| "json_of (GRaw b) = JNull"
| "json_of (GSlice vs) = JArr (map (\<lambda>v. (text_of v, json_of v)) vs)"
| "json_of (GStruct kvs) = JObj (map (\<lambda>(k, v). (quoteBody k, text_of v, json_of v)) kvs)"
| "json_of (GMap kvs) = JObj (map (\<lambda>(k, v). (quoteBody k, text_of v, json_of v)) (sort_key fst kvs))"

fun nesting :: "goval \<Rightarrow> nat" where
  "nesting (GSlice vs) = Suc (fold max (map nesting vs) 0)"
| "nesting (GStruct kvs) = Suc (fold max (map (\<lambda>(k, v). nesting v) kvs) 0)"
| "nesting (GMap kvs) = Suc (fold max (map (\<lambda>(k, v). nesting v) kvs) 0)"
| "nesting g = 0"

fun rawless :: "goval \<Rightarrow> bool" where
  "rawless (GRaw b) = False"
| "rawless (GSlice vs) = list_all rawless vs"
| "rawless (GStruct kvs) = list_all (\<lambda>(k, v). rawless v) kvs"
| "rawless (GMap kvs) = list_all (\<lambda>(k, v). rawless v) kvs"
| "rawless g = True"

lemma those_map_the: "(\<And>x. x \<in> set xs \<Longrightarrow> f x \<noteq> None) \<Longrightarrow> those (map f xs) = Some (map (\<lambda>x. the (f x)) xs)"
  by (induction xs) fastforce+

lemma fold_max_ge: "a \<le> fold max xs (a :: nat)"
  by (induction xs arbitrary: a) (auto intro: le_trans [OF max.cobounded2])

lemma fold_max_mem: "x \<in> set xs \<Longrightarrow> x \<le> fold max xs (a :: nat)"
  by (induction xs arbitrary: a) (auto intro: le_trans [OF max.cobounded1 fold_max_ge])

lemma insort_key_map: "insort_key fst (k, h v) (map (\<lambda>(k, v). (k, h v)) kvs) =
   map (\<lambda>(k, v). (k, h v)) (insort_key fst (k, v) kvs)"
  by (induction kvs) auto

lemma sort_key_map: "sort_key fst (map (\<lambda>(k, v). (k, h v)) kvs) = map (\<lambda>(k, v). (k, h v)) (sort_key fst kvs)"
  by (induction kvs) (auto simp: insort_key_map)

lemma memsText_join: "memsText [] ms = joinComma (map (\<lambda>(k, b, v). [CHR 0x22] @ k @ [CHR 0x22] @ '':'' @ b) ms)"
  by (induction ms) auto

lemma elemsText_join: "elemsText [] es = joinComma (map fst es)"
  by (induction es) auto

lemma objectText_mems:
  "objectText (map (\<lambda>(k, v). (k, h v)) kvs) = ''{'' @ memsText [] (map (\<lambda>(k, v). (quoteBody k, h v, j v)) kvs) @ ''}''"
  by (simp add: objectText_def memsText_join quote_def comp_def case_prod_unfold)

text \<open>Nothing \<open>Marshal\<close> writes holds a newline.\<close>

abbreviation one_line :: "gostring \<Rightarrow> bool" where
  "one_line b \<equiv> CHR 0x0A \<notin> set b"

lemma calm_one_line: "list_all calm w \<Longrightarrow> one_line w"
proof -
  have "\<not> calm (CHR 0x0A)" by (simp add: calm_def)
  then show "list_all calm w \<Longrightarrow> one_line w" by (metis list_all_iff)
qed

lemma one_line_escByte: "one_line (escByte c)"
proof (cases rule: escByte_cases [of c])
  case safe
  then show ?thesis using calm_one_line [of "[c]"] by (simp add: calm_htmlSafe)
next
  case (short e)
  then show ?thesis by (auto simp: isEscape_def)
next
  case hex
  have "bv c div 16 < 16" using bv_less [of c] by linarith
  moreover have "list_all calm ''u00''" by code_simp
  ultimately have "list_all calm (''u00'' @ [hexDigit (bv c div 16), hexDigit (bv c mod 16)])"
    by (simp add: calm_hexDigit)
  from calm_one_line [OF this] show ?thesis by (simp add: hex u00_def)
qed

lemma one_line_quoteBody: "one_line (quoteBody s)"
proof (induction s rule: quoteBody_induct)
  case (ascii c s)
  then show ?case using one_line_escByte [of c] by (simp add: quoteBody_ascii)
next
  case (bad s)
  then show ?case by (simp add: quoteBody_bad)
next
  case (sep s)
  then show ?case
    using calm_one_line [OF hex4_202(2) [OF sep(4)]] by (simp add: quoteBody_sep)
next
  case (run s)
  have "list_all calm (take (snd (DecodeRune s)) s)"
    using EncodeRune_high [OF DecodeRune_high [OF run(1-3)]] calm_high
    unfolding DecodeRune_bytes [OF run(1,3)] by (auto simp: list_all_iff)
  then show ?case using run calm_one_line by (simp add: quoteBody_run)
qed simp

lemma one_line_quote: "one_line (quote s)"
  by (simp add: quote_def one_line_quoteBody)

lemma one_line_itoa: "one_line (itoa i)"
  using natDec_digits [of "CHR 0x0A"] by (auto simp: itoa_def)

lemma one_line_joinComma: "(\<And>b. b \<in> set bs \<Longrightarrow> one_line b) \<Longrightarrow> one_line (joinComma bs)"
  by (induction bs) auto

lemma one_line_objectText:
  assumes "\<And>k b. (k, b) \<in> set ms \<Longrightarrow> one_line b"
  shows "one_line (objectText ms)"
proof -
  have "one_line (joinComma (map (\<lambda>(k, b). quote k @ '':'' @ b) ms))"
    using assms one_line_quote by (intro one_line_joinComma) fastforce
  then show ?thesis by (simp add: objectText_def)
qed

text \<open>The text of a value without raw messages is read as that value.\<close>

theorem marshal_encodes:
  "rawless g \<Longrightarrow> \<exists>b. marshal g = Some b \<and> encodes (nesting g) b (json_of g) \<and> one_line b"
proof (induction g rule: marshal.induct)
  case (5 vs)
  then have IH: "\<exists>b. marshal v = Some b \<and> encodes (nesting v) b (json_of v) \<and> one_line b" if "v \<in> set vs" for v
    using that by (simp add: list_all_iff)
  have m: "marshal (GSlice vs) = Some (''['' @ joinComma (map text_of vs) @ '']'')"
    using IH by (subst marshal.simps, subst those_map_the) auto
  have "encodes (Suc (fold max (map nesting vs) 0)) (''['' @ elemsText [] (map (\<lambda>v. (text_of v, json_of v)) vs) @ '']'')
      (JArr (map (\<lambda>v. (text_of v, json_of v)) vs))"
  proof (rule encodes_array)
    show "list_all (\<lambda>(b, v). encodes (fold max (map nesting vs) 0) b v) (map (\<lambda>v. (text_of v, json_of v)) vs)"
      using IH by (fastforce simp: list_all_iff intro: encodes_deeper fold_max_mem)
  qed simp
  moreover have "one_line (joinComma (map text_of vs))"
    by (rule one_line_joinComma) (use IH in fastforce)
  ultimately show ?case
    by (intro exI [of _ "''['' @ joinComma (map text_of vs) @ '']''"] conjI m)
      (simp_all add: elemsText_join comp_def del: marshal.simps)
next
  case (6 kvs)
  then have IH: "\<exists>b. marshal v = Some b \<and> encodes (nesting v) b (json_of v) \<and> one_line b" if "(k, v) \<in> set kvs" for k v
    using that by (fastforce simp: list_all_iff)
  have "those (map (\<lambda>(k, v). map_option (Pair k) (marshal v)) kvs) = Some (map (\<lambda>(k, v). (k, text_of v)) kvs)"
    by (subst those_map_the) (use IH in \<open>fastforce\<close>, use IH in \<open>force\<close>)
  then have m: "marshal (GStruct kvs) = Some (objectText (map (\<lambda>(k, v). (k, text_of v)) kvs))" by simp
  have "encodes (nesting (GStruct kvs)) (objectText (map (\<lambda>(k, v). (k, text_of v)) kvs)) (json_of (GStruct kvs))"
    unfolding objectText_mems [where j = json_of] nesting.simps json_of.simps
  proof (rule encodes_object)
    show "list_all (member_ok (fold max (map (\<lambda>(k, v). nesting v) kvs) 0))
        (map (\<lambda>(k, v). (quoteBody k, text_of v, json_of v)) kvs)"
      using IH by (fastforce simp: list_all_iff plainBody_quoteBody intro: encodes_deeper fold_max_mem)
  qed simp
  moreover have "one_line (objectText (map (\<lambda>(k, v). (k, text_of v)) kvs))"
    by (rule one_line_objectText) (use IH in fastforce)
  ultimately show ?case using m by blast
next
  case (7 kvs)
  then have IH: "\<exists>b. marshal v = Some b \<and> encodes (nesting v) b (json_of v) \<and> one_line b" if "(k, v) \<in> set kvs" for k v
    using that by (fastforce simp: list_all_iff)
  have "those (map (\<lambda>(k, v). map_option (Pair k) (marshal v)) kvs) = Some (map (\<lambda>(k, v). (k, text_of v)) kvs)"
    by (subst those_map_the) (use IH in \<open>fastforce\<close>, use IH in \<open>force\<close>)
  then have m: "marshal (GMap kvs) = Some (objectText (map (\<lambda>(k, v). (k, text_of v)) (sort_key fst kvs)))"
    by (simp add: sort_key_map)
  have "encodes (nesting (GMap kvs)) (objectText (map (\<lambda>(k, v). (k, text_of v)) (sort_key fst kvs))) (json_of (GMap kvs))"
    unfolding objectText_mems [where j = json_of] nesting.simps json_of.simps
  proof (rule encodes_object)
    show "list_all (member_ok (fold max (map (\<lambda>(k, v). nesting v) kvs) 0))
        (map (\<lambda>(k, v). (quoteBody k, text_of v, json_of v)) (sort_key fst kvs))"
      using IH by (fastforce simp: list_all_iff plainBody_quoteBody intro: encodes_deeper fold_max_mem)
  qed simp
  moreover have "one_line (objectText (map (\<lambda>(k, v). (k, text_of v)) (sort_key fst kvs)))"
    by (rule one_line_objectText) (use IH in fastforce)
  ultimately show ?case using m by blast
qed (simp_all add: encodes_words encodes_itoa quote_encodes one_line_itoa one_line_quote)

end
