(* ===== verification/TokLoad.thy ===== *)
theory TokLoad
  imports Encode JsonFacts "HOL-Library.AList"
begin

section \<open>Loading a tokenizer\<close>

text \<open>
  \<open>Load\<close>, \<open>loadVocab\<close>, \<open>loadAddedTokens\<close> and \<open>loadMerges\<close> of
  \<open>internal/tokenizer/tokenizer.go\<close>.  What is outside is the fields of \<open>files\<close>: reading a file,
  opening one (its data, and the error a read ends with, if any), the text of the error
  \<open>json.Unmarshal\<close> gives for an input, and the order in which Go ranges over a map, given its
  entries, which the language leaves open.  An index out of range is the value \<open>Panic\<close>.
\<close>

record files =
  ReadFile :: "gostring \<Rightarrow> gostring + gostring"
  OpenFile :: "gostring \<Rightarrow> gostring + gostring \<times> gostring option"
  JsonError :: "gostring \<Rightarrow> gostring"
  RangeOrder :: "(gostring \<times> int) list \<Rightarrow> (gostring \<times> int) list"

datatype load_failure = LoadErr gostring | Panic

subsection \<open>The three files\<close>

text \<open>\<open>json.Unmarshal\<close> into a \<open>map[string]int\<close>: the entries, a later one for the same key replacing an earlier one.\<close>

definition unmarshalVocab :: "gostring \<Rightarrow> (gostring \<times> int) list option" where
  "unmarshalVocab = unmarshal (\<lambda>v. case structOf v of
     None \<Rightarrow> None
   | Some ms \<Rightarrow>
       map_option (\<lambda>es. fold (\<lambda>(k, i) m. AList.update k i m) es [])
         (those (map (\<lambda>(k, raw, v). map_option (Pair (unquote k)) (intInto 0 v)) ms)))"

text \<open>\<open>json.Unmarshal\<close> into the struct whose field \<open>AddedTokens\<close> is a slice of ids and contents.\<close>

definition addedInto :: "int \<times> gostring \<Rightarrow> json \<Rightarrow> (int \<times> gostring) option" where
  "addedInto a v =
     (case structOf v of
        None \<Rightarrow> None
      | Some ms \<Rightarrow>
        (case (decodeAll intInto (fst a) (fieldValues ''id'' ms),
               decodeAll stringInto (snd a) (fieldValues ''content'' ms)) of
           (Some i, Some c) \<Rightarrow> Some (i, c)
         | _ \<Rightarrow> None))"

definition unmarshalAdded :: "gostring \<Rightarrow> (int \<times> gostring) list option" where
  "unmarshalAdded = unmarshal (\<lambda>v. case structOf v of
     None \<Rightarrow> None
   | Some ms \<Rightarrow>
       map_option sliceOf
         (decodeAll (sliceInto addedInto (0, [])) ([], 0) (fieldValues ''added_tokens'' ms)))"

text \<open>The map \<open>loadVocab\<close> returns is given as its entries in the order the range loops visit them.\<close>

definition loadVocab :: "files \<Rightarrow> gostring \<Rightarrow> gostring + (gostring \<times> int) list" where
  "loadVocab env path =
     (case ReadFile env path of
        Inl e \<Rightarrow> Inl (''read vocab.json: '' @ e)
      | Inr b \<Rightarrow>
          (case unmarshalVocab b of
             None \<Rightarrow> Inl (''parse vocab.json: '' @ JsonError env b)
           | Some m \<Rightarrow> Inr (RangeOrder env m)))"

definition loadAddedTokens :: "files \<Rightarrow> gostring \<Rightarrow> gostring + special list" where
  "loadAddedTokens env path =
     (case ReadFile env path of
        Inl e \<Rightarrow> Inl (''read tokenizer.json: '' @ e)
      | Inr b \<Rightarrow>
          (case unmarshalAdded b of
             None \<Rightarrow> Inl (''parse tokenizer.json: '' @ JsonError env b)
           | Some doc \<Rightarrow> Inr (map (\<lambda>(i, c). \<lparr>sp_str = c, sp_id = i\<rparr>) doc)))"

text \<open>
  \<open>bufio.Scanner\<close> with \<open>ScanLines\<close>: lines end at a newline, a last line needs none, one
  trailing carriage return is dropped, and a line that fills the buffer stops the scan.
\<close>

function rawLines :: "gostring \<Rightarrow> gostring list" where
  "rawLines s =
     (if s = [] then []
      else takeWhile (\<lambda>c. c \<noteq> CHR 0x0A) s # rawLines (drop 1 (dropWhile (\<lambda>c. c \<noteq> CHR 0x0A) s)))"
  by pat_completeness auto
termination
proof (relation "measure length", goal_cases)
  case (2 s)
  then have "length (dropWhile (\<lambda>c. c \<noteq> CHR 0x0A) s) \<le> length s" "0 < length s"
    by (simp_all add: length_dropWhile_le)
  then have "length (dropWhile (\<lambda>c. c \<noteq> CHR 0x0A) s) - 1 < length s" by linarith
  then show ?case by simp
qed simp

declare rawLines.simps [simp del]

definition dropCR :: "gostring \<Rightarrow> gostring" where
  "dropCR l = (if l \<noteq> [] \<and> List.last l = CHR 0x0D then butlast l else l)"

definition scanBuffer :: nat where
  "scanBuffer = 1024 * 1024"

definition trimCR :: "gostring \<Rightarrow> gostring" where
  "trimCR s = rev (dropWhile (\<lambda>c. c = CHR 0x0D) (rev s))"

text \<open>The loop body for one line: the rank table and the counter.\<close>

definition mergeLine :: "gostring \<Rightarrow> (gostring \<rightharpoonup> int) \<times> int \<Rightarrow> (gostring \<rightharpoonup> int) \<times> int" where
  "mergeLine line = (\<lambda>(m, rank).
     if line = [] \<or> prefix ''#version'' line then (m, rank)
     else if CHR '' '' \<notin> set line then (m, rank)
     else
       let a = takeWhile (\<lambda>c. c \<noteq> CHR '' '') line;
           b = trimCR (drop (length a + 1) line) in
       (m(pairKey a b \<mapsto> rank), rank + 1))"

fun scanMerges ::
  "gostring list \<Rightarrow> (gostring \<rightharpoonup> int) \<times> int \<Rightarrow> ((gostring \<rightharpoonup> int) \<times> int) \<times> gostring option" where
  "scanMerges [] st = (st, None)"
| "scanMerges (raw # ls) st =
     (if scanBuffer \<le> length raw then (st, Some ''bufio.Scanner: token too long'')
      else scanMerges ls (mergeLine (dropCR raw) st))"

definition loadMerges :: "files \<Rightarrow> gostring \<Rightarrow> tokenizer \<Rightarrow> gostring + tokenizer" where
  "loadMerges env path t =
     (case OpenFile env path of
        Inl e \<Rightarrow> Inl (''open merges.txt: '' @ e)
      | Inr (bs, rdErr) \<Rightarrow>
          (case scanMerges (rawLines bs) (mergeRank t, 0) of
             ((m, _), Some e) \<Rightarrow> Inl e
           | ((m, _), None) \<Rightarrow>
               (case rdErr of Some e \<Rightarrow> Inl e | None \<Rightarrow> Inr (t\<lparr>mergeRank := m\<rparr>))))"

subsection \<open>Load\<close>

definition maxOf :: "int list \<Rightarrow> int \<Rightarrow> int" where
  "maxOf ids m0 = fold (\<lambda>i m. if m < i then i else m) ids m0"

text \<open>The two filling loops; \<open>None\<close> is the index panic of \<open>t.idToTok[id]\<close>.\<close>

fun storeVocab :: "(gostring \<times> int) list \<Rightarrow> tokenizer \<Rightarrow> tokenizer option" where
  "storeVocab [] t = Some t"
| "storeVocab ((sy, i) # m) t =
     (let t1 = t\<lparr>tokToID := (tokToID t)(sy \<mapsto> i)\<rparr> in
      if 0 \<le> i \<and> i < int (length (idToTok t1))
      then storeVocab m (t1\<lparr>idToTok := (idToTok t1)[nat i := symToBytes t1 sy]\<rparr>)
      else None)"

fun storeSpecials :: "special list \<Rightarrow> tokenizer \<Rightarrow> tokenizer option" where
  "storeSpecials [] t = Some t"
| "storeSpecials (sp # sps) t =
     (if 0 \<le> sp_id sp \<and> sp_id sp < int (length (idToTok t))
      then storeSpecials sps
        (t\<lparr>idToTok := (idToTok t)[nat (sp_id sp) := sp_str sp],
           specialF := (specialF t)[nat (sp_id sp) := True],
           tokToID := (tokToID t)(sp_str sp \<mapsto> sp_id sp),
           specials := specials t @ [sp]\<rparr>)
      else None)"

text \<open>
  \<open>sort.Slice\<close> by decreasing length of the literal.  The Go sort leaves the order of literals
  of equal length open; \<open>Encode\<close> does not depend on it.
\<close>

definition sortSpecials :: "special list \<Rightarrow> special list" where
  "sortSpecials sps = sort_key (\<lambda>sp. - int (length (sp_str sp))) sps"

definition Load :: "files \<Rightarrow> gostring \<Rightarrow> load_failure + tokenizer" where
  "Load env dir =
     (let t0 = buildByteMaps new_tokenizer in
      case loadAddedTokens env (dir @ ''/tokenizer.json'') of
        Inl e \<Rightarrow> Inl (LoadErr e)
      | Inr sps \<Rightarrow>
        (case loadVocab env (dir @ ''/vocab.json'') of
           Inl e \<Rightarrow> Inl (LoadErr e)
         | Inr vocab \<Rightarrow>
           let maxID = maxOf (map sp_id sps) (maxOf (map snd vocab) 0) in
           if MaxInt < maxID + 1 then Inl Panic else
           let t1 = t0\<lparr>idToTok := replicate (nat (maxID + 1)) [],
                      specialF := replicate (nat (maxID + 1)) False\<rparr> in
           (case storeVocab vocab t1 of
              None \<Rightarrow> Inl Panic
            | Some t2 \<Rightarrow>
              (case storeSpecials sps t2 of
                 None \<Rightarrow> Inl Panic
               | Some t3 \<Rightarrow>
                 (case loadMerges env (dir @ ''/merges.txt'')
                         (t3\<lparr>specials := sortSpecials (specials t3)\<rparr>) of
                    Inl e \<Rightarrow> Inl (LoadErr e)
                  | Inr t \<Rightarrow> Inr t)))))"

subsection \<open>The result in closed form\<close>

definition puts :: "('a \<times> 'b) list \<Rightarrow> ('a \<rightharpoonup> 'b) \<Rightarrow> 'a \<rightharpoonup> 'b" where
  "puts kvs m = fold (\<lambda>(k, v) m. m(k \<mapsto> v)) kvs m"

definition sets :: "(nat \<times> 'a) list \<Rightarrow> 'a list \<Rightarrow> 'a list" where
  "sets kvs l = fold (\<lambda>(k, v) l. l[k := v]) kvs l"

lemma puts_simps [simp]: "puts [] m = m" "puts ((k, v) # kvs) m = puts kvs (m(k \<mapsto> v))"
  by (simp_all add: puts_def)

lemma sets_simps [simp]: "sets [] l = l" "sets ((k, v) # kvs) l = sets kvs (l[k := v])"
  by (simp_all add: sets_def)

lemma sets_length [simp]: "length (sets kvs l) = length l"
  by (induction kvs arbitrary: l) auto

lemma puts_append: "puts (xs @ ys) m = puts ys (puts xs m)"
  by (simp add: puts_def)

lemma sets_append: "sets (xs @ ys) l = sets ys (sets xs l)"
  by (simp add: sets_def)

lemma puts_other: "k \<notin> fst ` set kvs \<Longrightarrow> puts kvs m k = m k"
  by (induction kvs arbitrary: m) auto

lemma sets_other: "k \<notin> fst ` set kvs \<Longrightarrow> sets kvs l ! k = l ! k"
  by (induction kvs arbitrary: l) auto

lemma puts_mem: "distinct (map fst kvs) \<Longrightarrow> (k, v) \<in> set kvs \<Longrightarrow> puts kvs m k = Some v"
  by (induction kvs arbitrary: m) (auto simp: puts_other)

lemma sets_mem:
  "distinct (map fst kvs) \<Longrightarrow> (k, v) \<in> set kvs \<Longrightarrow> k < length l \<Longrightarrow> sets kvs l ! k = v"
  by (induction kvs arbitrary: l) (auto simp: sets_other)

lemma puts_Some: "puts kvs m k = Some v \<Longrightarrow> (k, v) \<in> set kvs \<or> m k = Some v"
  by (induction kvs arbitrary: m) (fastforce split: if_splits)+

lemma puts_None: "puts kvs m k = None \<longleftrightarrow> k \<notin> fst ` set kvs \<and> m k = None"
  by (induction kvs arbitrary: m) (force split: if_split_asm)+

text \<open>The three loops.\<close>

abbreviation in_range :: "nat \<Rightarrow> int \<Rightarrow> bool" where
  "in_range n i \<equiv> 0 \<le> i \<and> i < int n"

lemma storeVocab_eq:
  "storeVocab m t =
     (if list_all (in_range (length (idToTok t))) (map snd m)
      then Some (t\<lparr>tokToID := puts m (tokToID t),
                   idToTok := sets (map (\<lambda>(sy, i). (nat i, symToBytes t sy)) m) (idToTok t)\<rparr>)
      else None)"
proof (induction m t rule: storeVocab.induct)
  case (2 sy i m t)
  have "symToBytes (t\<lparr>tokToID := f, idToTok := l\<rparr>) = symToBytes t" for f l
    by (simp add: fun_eq_iff symToBytes_def)
  moreover have "symToBytes (t\<lparr>tokToID := f\<rparr>) = symToBytes t" for f
    by (simp add: fun_eq_iff symToBytes_def)
  ultimately show ?case using 2 by (simp add: Let_def)
qed simp

lemma storeSpecials_eq:
  "storeSpecials sps t =
     (if list_all (in_range (length (idToTok t))) (map sp_id sps)
      then Some (t\<lparr>idToTok := sets (map (\<lambda>sp. (nat (sp_id sp), sp_str sp)) sps) (idToTok t),
                   specialF := sets (map (\<lambda>sp. (nat (sp_id sp), True)) sps) (specialF t),
                   tokToID := puts (map (\<lambda>sp. (sp_str sp, sp_id sp)) sps) (tokToID t),
                   specials := specials t @ sps\<rparr>)
      else None)"
  by (induction sps t rule: storeSpecials.induct) auto

definition parseMerge :: "gostring \<Rightarrow> (gostring \<times> gostring) option" where
  "parseMerge line =
     (if line = [] \<or> prefix ''#version'' line \<or> CHR '' '' \<notin> set line then None
      else let a = takeWhile (\<lambda>c. c \<noteq> CHR '' '') line in
           Some (a, trimCR (drop (length a + 1) line)))"

definition mergesOf :: "gostring \<Rightarrow> (gostring \<times> gostring) list" where
  "mergesOf bs = List.map_filter parseMerge (map dropCR (rawLines bs))"

definition ranks :: "(gostring \<times> gostring) list \<Rightarrow> (gostring \<rightharpoonup> int)" where
  "ranks ms = puts (zip (map (\<lambda>(a, b). pairKey a b) ms) (map int [0..<length ms])) Map.empty"

definition short_lines :: "gostring \<Rightarrow> bool" where
  "short_lines bs = list_all (\<lambda>l. length l < scanBuffer) (rawLines bs)"

lemma mergeLine_parse:
  "mergeLine line (m, r) =
     (case parseMerge line of None \<Rightarrow> (m, r) | Some (a, b) \<Rightarrow> (m(pairKey a b \<mapsto> r), r + 1))"
  by (simp add: mergeLine_def parseMerge_def Let_def)

lemma scanMerges_eq:
  assumes "list_all (\<lambda>l. length l < scanBuffer) ls"
  shows "\<exists>n. scanMerges ls (m, int k) =
    ((puts (zip (map (\<lambda>(a, b). pairKey a b) (List.map_filter parseMerge (map dropCR ls)))
       (map int [k..<k + length (List.map_filter parseMerge (map dropCR ls))])) m, n), None)"
  using assms
proof (induction ls arbitrary: m k)
  case (Cons l ls)
  show ?case
  proof (cases "parseMerge (dropCR l)")
    case None
    with Cons show ?thesis by (simp add: mergeLine_parse map_filter_simps)
  next
    case (Some ab)
    obtain a b where ab: "ab = (a, b)" by fastforce
    let ?ms = "List.map_filter parseMerge (map dropCR ls)"
    have upt: "[k..<k + length (ab # ?ms)] = k # [Suc k..<Suc k + length ?ms]"
      by (subst upt_conv_Cons) simp_all
    have ms: "List.map_filter parseMerge (map dropCR (l # ls)) = ab # ?ms"
      using Some by (simp add: map_filter_simps)
    have "scanMerges (l # ls) (m, int k) = scanMerges ls (m(pairKey a b \<mapsto> int k), int (Suc k))"
      using Cons.prems Some ab by (simp add: mergeLine_parse ac_simps)
    moreover obtain n where "scanMerges ls (m(pairKey a b \<mapsto> int k), int (Suc k)) =
        ((puts (zip (map (\<lambda>(a, b). pairKey a b) ?ms) (map int [Suc k..<Suc k + length ?ms]))
          (m(pairKey a b \<mapsto> int k)), n), None)"
      using Cons.IH Cons.prems unfolding list.pred_inject by blast
    ultimately have "scanMerges (l # ls) (m, int k) =
        ((puts (zip (map (\<lambda>(a, b). pairKey a b) (ab # ?ms)) (map int (k # [Suc k..<Suc k + length ?ms]))) m,
          n), None)"
      by (simp only: ab list.map zip_Cons_Cons puts_simps prod.case)
    then show ?thesis unfolding ms upt by blast
  qed
qed (simp add: map_filter_simps)

lemma loadMerges_eq:
  assumes "OpenFile env path = Inr (bs, None)" "short_lines bs" "mergeRank t = Map.empty"
  shows "loadMerges env path t = Inr (t\<lparr>mergeRank := ranks (mergesOf bs)\<rparr>)"
  using scanMerges_eq [of "rawLines bs" "Map.empty" 0] assms
  by (auto simp: loadMerges_def short_lines_def ranks_def mergesOf_def)

lemma maxOf_ge: "m0 \<le> maxOf ids m0" and maxOf_mem: "i \<in> set ids \<Longrightarrow> i \<le> maxOf ids m0"
  and maxOf_cases: "maxOf ids m0 = m0 \<or> maxOf ids m0 \<in> set ids"
proof -
  have *: "m0 \<le> maxOf ids m0 \<and> (\<forall>i \<in> set ids. i \<le> maxOf ids m0) \<and>
      (maxOf ids m0 = m0 \<or> maxOf ids m0 \<in> set ids)"
    unfolding maxOf_def by (induction ids arbitrary: m0) (force+)
  show "m0 \<le> maxOf ids m0" "i \<in> set ids \<Longrightarrow> i \<le> maxOf ids m0"
    "maxOf ids m0 = m0 \<or> maxOf ids m0 \<in> set ids" using * by blast+
qed

text \<open>The number of ids, and the tokenizer \<open>Load\<close> builds from the parsed files.\<close>

definition idCount :: "(gostring \<times> int) list \<Rightarrow> special list \<Rightarrow> nat" where
  "idCount vocab sps = nat (maxOf (map sp_id sps) (maxOf (map snd vocab) 0) + 1)"

definition loaded ::
  "(gostring \<times> int) list \<Rightarrow> special list \<Rightarrow> (gostring \<times> gostring) list \<Rightarrow> tokenizer" where
  "loaded vocab sps ms =
     (let t0 = buildByteMaps new_tokenizer; n = idCount vocab sps in
      t0\<lparr>tokToID := puts (vocab @ map (\<lambda>sp. (sp_str sp, sp_id sp)) sps) Map.empty,
         idToTok := sets (map (\<lambda>(sy, i). (nat i, symToBytes t0 sy)) vocab @
                          map (\<lambda>sp. (nat (sp_id sp), sp_str sp)) sps) (replicate n []),
         specialF := sets (map (\<lambda>sp. (nat (sp_id sp), True)) sps) (replicate n False),
         mergeRank := ranks ms,
         specials := sortSpecials sps\<rparr>)"

text \<open>The three files as \<open>Load\<close> sees them when nothing fails to read or parse.\<close>

definition reads ::
  "files \<Rightarrow> gostring \<Rightarrow> (gostring \<times> int) list \<Rightarrow> special list \<Rightarrow> gostring \<Rightarrow> bool" where
  "reads env dir vocab sps bs =
     (loadAddedTokens env (dir @ ''/tokenizer.json'') = Inr sps \<and>
      loadVocab env (dir @ ''/vocab.json'') = Inr vocab \<and>
      OpenFile env (dir @ ''/merges.txt'') = Inr (bs, None) \<and> short_lines bs)"

definition ids_ok :: "(gostring \<times> int) list \<Rightarrow> special list \<Rightarrow> bool" where
  "ids_ok vocab sps = list_all (\<lambda>i. 0 \<le> i \<and> i < MaxInt) (map snd vocab @ map sp_id sps)"

lemma new_tokenizer_frame:
  "tokToID (buildByteMaps new_tokenizer) = Map.empty" "specials (buildByteMaps new_tokenizer) = []"
  "mergeRank (buildByteMaps new_tokenizer) = Map.empty"
  by (simp_all add: buildByteMaps_frame new_tokenizer_def)

text \<open>Every id the tokenizer knows indexes its tables, which have one length.\<close>

definition well_typed :: "tokenizer \<Rightarrow> bool" where
  "well_typed t =
     (length (specialF t) = length (idToTok t) \<and>
      (\<forall>s i. tokToID t s = Some i \<longrightarrow> in_range (length (idToTok t)) i) \<and>
      list_all (\<lambda>sp. in_range (length (idToTok t)) (sp_id sp)) (specials t))"

lemma puts_in: "puts kvs m k = Some v \<Longrightarrow> m k = Some v \<or> v \<in> snd ` set kvs"
  using puts_Some [of kvs m k v] by force

lemma storeVocab_typed: "storeVocab m t = Some t' \<Longrightarrow> well_typed t \<Longrightarrow> well_typed t'"
  by (auto simp: storeVocab_eq well_typed_def list_all_iff dest!: puts_in split: if_splits)

lemma storeSpecials_typed: "storeSpecials sps t = Some t' \<Longrightarrow> well_typed t \<Longrightarrow> well_typed t'"
  by (auto simp: storeSpecials_eq well_typed_def list_all_iff dest!: puts_in split: if_splits)

lemma loadMerges_typed: "loadMerges env path t = Inr t' \<Longrightarrow> well_typed t \<Longrightarrow> well_typed t'"
  by (auto simp: loadMerges_def well_typed_def split: sum.splits prod.splits option.splits)

lemma Load_well_typed: "Load env dir = Inr t \<Longrightarrow> well_typed t"
proof -
  assume "Load env dir = Inr t"
  then obtain n v sps t2 t3 where
      t2: "storeVocab v ((buildByteMaps new_tokenizer)\<lparr>idToTok := replicate n [], specialF := replicate n False\<rparr>) = Some t2"
    and t3: "storeSpecials sps t2 = Some t3"
    and t: "loadMerges env (dir @ ''/merges.txt'') (t3\<lparr>specials := sortSpecials (specials t3)\<rparr>) = Inr t"
    by (auto simp: Load_def Let_def split: sum.splits option.splits if_splits)
  have "well_typed ((buildByteMaps new_tokenizer)\<lparr>idToTok := replicate n [], specialF := replicate n False\<rparr>)"
    by (simp add: well_typed_def new_tokenizer_frame)
  then have "well_typed t3" by (intro storeSpecials_typed [OF t3] storeVocab_typed [OF t2])
  then have "well_typed (t3\<lparr>specials := sortSpecials (specials t3)\<rparr>)"
    by (simp add: well_typed_def sortSpecials_def list_all_iff)
  then show ?thesis by (rule loadMerges_typed [OF t])
qed

lemma in_range_idCount:
  assumes "ids_ok vocab sps"
  shows "list_all (in_range (idCount vocab sps)) (map snd vocab)"
    and "list_all (in_range (idCount vocab sps)) (map sp_id sps)"
    and "maxOf (map sp_id sps) (maxOf (map snd vocab) 0) < MaxInt"
proof -
  let ?m = "maxOf (map snd vocab) 0" and ?M = "maxOf (map sp_id sps) (maxOf (map snd vocab) 0)"
  have ge: "i \<le> ?M" if "i \<in> set (map snd vocab) \<or> i \<in> set (map sp_id sps)" for i
    using that maxOf_mem [of i "map snd vocab" 0] maxOf_ge [of ?m "map sp_id sps"]
      maxOf_mem [of i "map sp_id sps" ?m] by linarith
  have r: "in_range (idCount vocab sps) i" if "i \<in> set (map snd vocab) \<or> i \<in> set (map sp_id sps)" for i
  proof -
    have "0 \<le> i" using assms that by (auto simp: ids_ok_def list_all_iff)
    with ge [OF that] show ?thesis by (simp add: idCount_def)
  qed
  then show "list_all (in_range (idCount vocab sps)) (map snd vocab)"
    "list_all (in_range (idCount vocab sps)) (map sp_id sps)" by (auto simp: list_all_iff)
  have "?M = 0 \<or> ?M \<in> set (map snd vocab @ map sp_id sps)"
    using maxOf_cases [of "map sp_id sps" ?m] maxOf_cases [of "map snd vocab" 0]
    unfolding set_append Un_iff by metis
  then show "?M < MaxInt" using assms by (auto simp: ids_ok_def list_all_iff MaxInt_def)
qed

lemma Load_loaded:
  assumes "reads env dir vocab sps bs" "ids_ok vocab sps"
  shows "Load env dir = Inr (loaded vocab sps (mergesOf bs))"
proof -
  have r: "loadAddedTokens env (dir @ ''/tokenizer.json'') = Inr sps"
    "loadVocab env (dir @ ''/vocab.json'') = Inr vocab"
    "OpenFile env (dir @ ''/merges.txt'') = Inr (bs, None)" "short_lines bs"
    using assms(1) by (simp_all add: reads_def)
  note ids = in_range_idCount [OF assms(2)]
  have sb: "symToBytes (t\<lparr>idToTok := l, specialF := f\<rparr>) = symToBytes t" for t :: tokenizer and l f
    by (simp add: fun_eq_iff symToBytes_def)
  show ?thesis
    unfolding Load_def r sum.case Let_def idCount_def [symmetric]
    using ids by (simp add: storeVocab_eq storeSpecials_eq loadMerges_eq [OF r(3,4)] new_tokenizer_frame
      loaded_def puts_append sets_append sb Let_def)
qed

subsection \<open>Complete files give a well-formed tokenizer\<close>

text \<open>
  What a model directory has to satisfy: ids are distinct and in range, every byte symbol and
  every merge result is in the vocabulary, merges are in symbol space (so free of the separator
  byte), and the special literals are distinct, non-empty and printable ASCII.
\<close>

definition ascii_printable :: "gostring \<Rightarrow> bool" where
  "ascii_printable s = list_all (\<lambda>c. 33 \<le> bv c \<and> bv c \<le> 126) s"

definition files_complete ::
  "(gostring \<times> int) list \<Rightarrow> special list \<Rightarrow> (gostring \<times> gostring) list \<Rightarrow> bool" where
  "files_complete vocab sps ms =
     (ids_ok vocab sps \<and> distinct (map fst vocab) \<and> distinct (map snd vocab @ map sp_id sps) \<and>
      list_all (\<lambda>b. EncodeRune (cpOf b) \<in> set (map fst vocab)) [0..<256] \<and>
      list_all (\<lambda>(a, b). a @ b \<in> set (map fst vocab) \<and>
        CHR 0x01 \<notin> set a \<and> CHR 0x01 \<notin> set b) ms \<and>
      distinct (map sp_str sps) \<and>
      list_all (\<lambda>sp. sp_str sp \<noteq> [] \<and> ascii_printable (sp_str sp)) sps)"

lemma loaded_fields:
  "tokToID (loaded vocab sps ms) = puts (vocab @ map (\<lambda>sp. (sp_str sp, sp_id sp)) sps) Map.empty"
  "idToTok (loaded vocab sps ms) =
     sets (map (\<lambda>(sy, i). (nat i, symToBytes (buildByteMaps new_tokenizer) sy)) vocab @
       map (\<lambda>sp. (nat (sp_id sp), sp_str sp)) sps) (replicate (idCount vocab sps) [])"
  "specialF (loaded vocab sps ms) =
     sets (map (\<lambda>sp. (nat (sp_id sp), True)) sps) (replicate (idCount vocab sps) False)"
  "mergeRank (loaded vocab sps ms) = ranks ms"
  "specials (loaded vocab sps ms) = sortSpecials sps"
  by (simp_all add: loaded_def Let_def)

lemma loaded_tables: "tables_ok (loaded vocab sps ms)"
  using buildByteMaps_tables [of new_tokenizer] by (simp add: loaded_def tables_upto_def Let_def)

lemma loaded_symToBytes: "symToBytes (buildByteMaps new_tokenizer) = symToBytes (loaded vocab sps ms)"
  by (simp add: fun_eq_iff symToBytes_def loaded_def Let_def)

lemma set_sortSpecials [simp]: "set (sortSpecials sps) = set sps"
  by (simp add: sortSpecials_def)

lemma complete_nth:
  assumes complete: "files_complete vocab sps ms"
    and u: "(k, v) \<in> set (map (\<lambda>(sy, i). (nat i, symToBytes (buildByteMaps new_tokenizer) sy)) vocab @
       map (\<lambda>sp. (nat (sp_id sp), sp_str sp)) sps)"
  shows "Decode (loaded vocab sps ms) [int k] = v"
proof -
  let ?ids = "map snd vocab @ map sp_id sps"
  let ?u = "map (\<lambda>(sy, i). (nat i, symToBytes (buildByteMaps new_tokenizer) sy)) vocab @
       map (\<lambda>sp. (nat (sp_id sp), sp_str sp)) sps"
  have ids: "ids_ok vocab sps" "distinct ?ids" using complete by (simp_all add: files_complete_def)
  have nn: "\<forall>i \<in> set ?ids. 0 \<le> i" using ids(1) by (auto simp: ids_ok_def list_all_iff)
  have "map fst ?u = map nat ?ids" by (simp add: case_prod_unfold)
  moreover have "distinct (map nat ?ids)"
    using ids(2) nn distinct_map [of nat ?ids] by (simp only: inj_on_def) (metis eq_nat_nat_iff)
  ultimately have d: "distinct (map fst ?u)" by (simp only:)
  have "k \<in> set (map fst ?u)" using u by force
  then have "k \<in> set (map nat ?ids)" by (simp add: case_prod_unfold)
  then obtain i where "i \<in> set ?ids" "k = nat i" by auto
  moreover then have "in_range (idCount vocab sps) i"
    using in_range_idCount(1,2) [OF ids(1)] by (auto simp: list_all_iff)
  ultimately have k: "k < idCount vocab sps" by (simp add: nat_less_iff)
  from sets_mem [OF d u] k show ?thesis
    by (simp add: Decode_def loaded_fields del: set_append map_append)
qed

lemma complete_id:
  "files_complete vocab sps ms \<Longrightarrow> (sy, i) \<in> set vocab \<Longrightarrow>
   Decode (loaded vocab sps ms) [i] = symToBytes (loaded vocab sps ms) sy"
  and complete_special:
  "files_complete vocab sps ms \<Longrightarrow> sp \<in> set sps \<Longrightarrow>
   Decode (loaded vocab sps ms) [sp_id sp] = sp_str sp"
proof -
  assume complete: "files_complete vocab sps ms"
  have nn: "\<forall>i \<in> set (map snd vocab @ map sp_id sps). 0 \<le> i"
    using complete by (auto simp: files_complete_def ids_ok_def list_all_iff)
  show "Decode (loaded vocab sps ms) [i] = symToBytes (loaded vocab sps ms) sy" if "(sy, i) \<in> set vocab"
    using complete_nth [OF complete, of "nat i" "symToBytes (buildByteMaps new_tokenizer) sy"] nn that
    by (force simp: loaded_symToBytes [of vocab sps ms])
  show "Decode (loaded vocab sps ms) [sp_id sp] = sp_str sp" if "sp \<in> set sps"
    using complete_nth [OF complete, of "nat (sp_id sp)" "sp_str sp"] nn that by force
qed

lemma symsOf_printable:
  assumes "ascii_printable s"
  shows "symsOf (loaded vocab sps ms) s = s"
proof -
  have "EncodeRune (cpOf (bv c)) = [c]" if "33 \<le> bv c" "bv c \<le> 126" for c
    using that by (simp add: cpOf_def printable_def EncodeRune_def scalar_def)
  then show ?thesis using assms
    by (induction s) (auto simp: symsOf_def ascii_printable_def
      loaded_tables [of vocab sps ms, unfolded tables_upto_def, rule_format])
qed

lemma complete_covers:
  assumes complete: "files_complete vocab sps ms"
  shows "covers (loaded vocab sps ms)"
  unfolding covers_def
proof (intro conjI allI impI)
  let ?t = "loaded vocab sps ms"
  have some: "tokToID ?t s \<noteq> None" if "s \<in> set (map fst vocab)" for s
    using that by (auto simp: loaded_fields puts_None)
  show "tokToID ?t (byteToSym ?t c) \<noteq> None" for c
  proof -
    have "bv c \<in> set [0..<256]" by simp
    then have "EncodeRune (cpOf (bv c)) \<in> set (map fst vocab)"
      using complete unfolding files_complete_def list_all_iff by blast
    then show ?thesis
      using some loaded_tables [of vocab sps ms] by (simp add: tables_upto_def)
  qed
  show "tokToID ?t (a @ b) \<noteq> None" if key: "mergeRank ?t (pairKey a b) \<noteq> None" for a b
  proof -
    have "pairKey a b \<in> set (map (\<lambda>(a, b). pairKey a b) ms)"
      using key by (auto simp: loaded_fields ranks_def puts_None dest: set_zip_leftD)
    then obtain a' b' where ab: "(a', b') \<in> set ms" "pairKey a b = pairKey a' b'" by auto
    then have m: "a' @ b' \<in> set (map fst vocab)" "CHR 0x01 \<notin> set a'" "CHR 0x01 \<notin> set b'"
      using complete by (auto simp: files_complete_def list_all_iff)
    have "a = a' \<and> b = b'" using ab(2) m(2,3) unfolding pairKey_def
      by (auto simp: append_eq_append_conv2 Cons_eq_append_conv append_eq_Cons_conv)
    with some m show ?thesis by simp
  qed
qed

lemma complete_spells:
  assumes complete: "files_complete vocab sps ms"
  shows "spells (loaded vocab sps ms)"
  unfolding spells_def
proof (intro allI impI)
  let ?t = "loaded vocab sps ms"
  fix w i assume "tokToID ?t (symsOf ?t w) = Some i"
  then consider "(symsOf ?t w, i) \<in> set vocab"
    | sp where "sp \<in> set sps" "sp_str sp = symsOf ?t w" "sp_id sp = i"
    by (auto simp: loaded_fields dest!: puts_Some)
  then show "Decode ?t [i] = w"
  proof cases
    case 1
    then show ?thesis using complete_id [OF complete] symToBytes_symsOf [OF loaded_tables] by simp
  next
    case 2
    then have "ascii_printable (sp_str sp)"
      using complete by (auto simp: files_complete_def list_all_iff)
    then have "symsOf ?t (sp_str sp) = symsOf ?t w" using 2 by (simp add: symsOf_printable)
    then have "sp_str sp = w" by (simp add: symsOf_inject [OF loaded_tables])
    then show ?thesis using complete_special [OF complete 2(1)] 2(3) by simp
  qed
qed

lemma complete_enc_ok:
  assumes complete: "files_complete vocab sps ms"
  shows "enc_ok (loaded vocab sps ms)"
  unfolding enc_ok_def vocab_ok_def
  using loaded_tables complete_covers [OF complete] complete_spells [OF complete] complete
    complete_special [OF complete]
  by (simp add: no_empty_special_def specials_spell_def loaded_fields list_all_iff files_complete_def)

subsection \<open>Merge ranks and special flags\<close>

lemma ranks_nth:
  assumes "distinct ms" "list_all (\<lambda>(a, b). CHR 0x01 \<notin> set a) ms" "k < length ms" "ms ! k = (a, b)"
  shows "ranks ms (pairKey a b) = Some (int k)"
  unfolding ranks_def
proof (rule puts_mem)
  have "inj_on (\<lambda>(a, b). pairKey a b) (set ms)"
    unfolding inj_on_def using assms(2) pairKey_inject [of _ _ _ _]
    by (clarsimp simp: list_all_iff) (metis case_prodD)
  then show "distinct (map fst (zip (map (\<lambda>(a, b). pairKey a b) ms) (map int [0..<length ms])))"
    using assms(1) by (simp add: distinct_map)
  show "(pairKey a b, int k) \<in> set (zip (map (\<lambda>(a, b). pairKey a b) ms) (map int [0..<length ms]))"
    using assms(3,4) by (force simp: in_set_zip)
qed

lemma loaded_VocabSize:
  assumes "ids_ok vocab sps"
  shows "VocabSize (loaded vocab sps ms) = maxOf (map sp_id sps) (maxOf (map snd vocab) 0) + 1"
  using maxOf_ge [of 0 "map snd vocab"] maxOf_ge [of "maxOf (map snd vocab) 0" "map sp_id sps"]
  by (simp add: VocabSize_def loaded_fields idCount_def)

lemma sets_True: "k < length l \<Longrightarrow>
   sets (map (\<lambda>x. (f x, True)) xs) l ! k \<longleftrightarrow> k \<in> f ` set xs \<or> l ! k"
proof (induction xs arbitrary: l)
  case (Cons x xs)
  have "l[f x := True] ! k \<longleftrightarrow> k = f x \<or> l ! k"
    using Cons.prems by (cases "k = f x") auto
  with Cons show ?case by auto
qed simp

lemma loaded_IsSpecial:
  assumes "ids_ok vocab sps"
  shows "IsSpecial (loaded vocab sps ms) i \<longleftrightarrow> i \<in> set (map sp_id sps)"
proof -
  have r: "in_range (idCount vocab sps) j" if "j \<in> set (map sp_id sps)" for j
    using in_range_idCount(2) [OF assms] that by (simp only: list_all_iff)
  have "IsSpecial (loaded vocab sps ms) i \<longleftrightarrow>
      in_range (idCount vocab sps) i \<and> nat i \<in> (\<lambda>sp. nat (sp_id sp)) ` set sps"
    by (auto simp: IsSpecial_def loaded_fields sets_True)
  also have "\<dots> \<longleftrightarrow> i \<in> set (map sp_id sps)"
    using r by (auto simp: image_iff) (metis eq_nat_nat_iff)
  finally show ?thesis .
qed

subsection \<open>A sample model directory\<close>

text \<open>
  The 256 byte symbols, one merge and one special literal: the inputs the properties below are
  applied at.
\<close>

definition sampleVocab :: "(gostring \<times> int) list" where
  "sampleVocab = (''ab'', 256) # map (\<lambda>b. (EncodeRune (cpOf b), int b)) [0..<256]"

definition sampleAdded :: "special list" where
  "sampleAdded = [\<lparr>sp_str = ''<s>'', sp_id = 257\<rparr>]"

definition sampleMerges :: gostring where
  "sampleMerges = ''#version: 0.2\<newline>a b\<newline>''"

text \<open>The two JSON files as a writer of the format gives them.\<close>

definition vocabText :: "(gostring \<times> int) list \<Rightarrow> gostring" where
  "vocabText kvs = ''{'' @ memsText [] (map (\<lambda>(k, i). (quoteBody k, itoa i, JNum (itoa i))) kvs) @ ''}''"

lemma fold_update_distinct:
  "distinct (map fst (m @ es)) \<Longrightarrow> fold (\<lambda>(k, i) m. AList.update k i m) es m = m @ es"
proof (induction es arbitrary: m)
  case (Cons e es)
  have "AList.update (fst e) (snd e) m = m @ [e]"
    using Cons.prems by (induction m) auto
  then show ?case using Cons by (simp add: case_prod_unfold)
qed simp

lemma those_map_Some: "(\<And>x. x \<in> set xs \<Longrightarrow> f x = Some (g x)) \<Longrightarrow> those (map f xs) = Some (map g xs)"
  by (induction xs) auto

lemma unmarshalVocab_text [roundtrips]:
  assumes "distinct (map fst kvs)" "list_all (\<lambda>(k, i). ValidString k \<and> - (2 ^ 63) \<le> i \<and> i \<le> MaxInt) kvs"
  shows "unmarshalVocab (vocabText kvs) = Some kvs"
proof -
  let ?ms = "map (\<lambda>(k, i). (quoteBody k, itoa i, JNum (itoa i))) kvs"
  have "list_all (member_ok (maxNestingDepth - 1)) ?ms"
    by (auto simp: list_all_iff plainBody_quoteBody encodes_itoa)
  from encodes_object [OF this, of "[]"] have "encodes maxNestingDepth (vocabText kvs) (JObj ?ms)"
    by (simp add: vocabText_def maxNestingDepth_def)
  moreover have "those (map (\<lambda>(k, raw, v). map_option (Pair (unquote k)) (intInto 0 v)) ?ms) = Some kvs"
    using those_map_Some [of kvs "\<lambda>(k, i). map_option (Pair (unquote (quoteBody k))) (parseInt (itoa i))" "\<lambda>x. x"] assms(2)
    by (auto simp: comp_def case_prod_unfold intInto_def list_all_iff unquote_quoteBody sanitize_valid parseInt_itoa)
  ultimately show ?thesis
    using fold_update_distinct [of "[]" kvs] assms(1)
    by (simp add: unmarshalVocab_def unmarshal_def encodes_parseJSON structOf_def)
qed

definition addedText :: "(int \<times> gostring) list \<Rightarrow> gostring" where
  "addedText es = ''{'' @ memsText [] [(''added_tokens'',
     ''['' @ elemsText [] (map (\<lambda>(i, c).
        let ms = [(''id'', itoa i, JNum (itoa i)), (''content'', quote c, JStr (quoteBody c))] in
        (''{'' @ memsText [] ms @ ''}'', JObj ms)) es) @ '']'', JNull)] @ ''}''"

lemma unmarshalAdded_text [roundtrips]:
  assumes "list_all (\<lambda>(i, c). ValidString c \<and> - (2 ^ 63) \<le> i \<and> i \<le> MaxInt) es"
  shows "unmarshalAdded (addedText es) = Some es"
proof -
  have keys: "lowerKey ''id''" "lowerKey ''content''" "lowerKey ''added_tokens''" by (simp_all add: lowerKey_def)
  let ?ms = "\<lambda>(i, c). [(''id'', itoa i, JNum (itoa i)), (''content'', quote c, JStr (quoteBody c))]"
  let ?es = "map (\<lambda>x. (''{'' @ memsText [] (?ms x) @ ''}'', JObj (?ms x))) es"
  have mems: "encodes (Suc d) (''{'' @ memsText [] (?ms x) @ ''}'') (JObj (?ms x))" for d x
    by (rule encodes_object) (auto simp: plainBody_lower keys encodes_itoa quote_encodes split: prod.split)
  have "encodes (Suc (Suc d)) (''['' @ elemsText [] ?es @ '']'') (JArr ?es)" for d
    by (rule encodes_array) (use mems in \<open>auto simp: list_all_iff\<close>)
  then have arr: "encodes (maxNestingDepth - 1) (''['' @ elemsText [] ?es @ '']'') (JArr ?es)"
    using encodes_deeper [of 2 _ "JArr ?es" "maxNestingDepth - 1"] by (simp add: maxNestingDepth_def numeral_2_eq_2)
  let ?top = "[(''added_tokens'', ''['' @ elemsText [] ?es @ '']'', JArr ?es)]"
  have "encodes maxNestingDepth (''{'' @ memsText [] ?top @ ''}'') (JObj ?top)"
    using encodes_object [of "maxNestingDepth - 1" ?top "[]"] arr keys by (simp add: plainBody_lower maxNestingDepth_def)
  moreover have "addedText es = ''{'' @ memsText [] ?top @ ''}''"
    by (simp add: addedText_def Let_def case_prod_unfold)
  moreover have "elemsInto addedInto (0, []) bs (map snd ?es) = Some (es @ drop (length es) bs)" for bs
    using assms
  proof (induction es arbitrary: bs)
    case (Cons e es)
    obtain i c where e: "e = (i, c)" by (cases e)
    have "addedInto a (JObj (?ms e)) = Some e" for a
      using Cons.prems keys by (simp add: e addedInto_def structOf_def isField_lower intInto_def
        stringInto_def unquote_quoteBody sanitize_valid parseInt_itoa)
    then show ?case using Cons by (simp add: drop_Suc)
  qed simp
  then have "sliceInto addedInto (0, []) ([], 0) (JArr ?es) = Some (es, length es)"
    by (simp add: sliceInto_def)
  ultimately show ?thesis
    using keys by (simp add: unmarshalAdded_def unmarshal_def encodes_parseJSON structOf_def isField_lower sliceOf_def)
qed

definition sampleFiles :: files where
  "sampleFiles =
     \<lparr>ReadFile = (\<lambda>p. if p = ''m/vocab.json'' then Inr (vocabText sampleVocab)
        else if p = ''m/tokenizer.json'' then Inr (addedText [(257, ''<s>'')]) else Inl ''no such file''),
      OpenFile = (\<lambda>p. Inr (sampleMerges, None)),
      JsonError = (\<lambda>b. ''invalid''), RangeOrder = (\<lambda>m. m)\<rparr>"

lemma sample_rawLines: "rawLines sampleMerges = [''#version: 0.2'', ''a b'']"
  unfolding sampleMerges_def by (simp add: rawLines.simps)

lemma sample_mergesOf: "mergesOf sampleMerges = [(''a'', ''b'')]"
  unfolding mergesOf_def sample_rawLines
  by (simp add: dropCR_def parseMerge_def trimCR_def map_filter_simps Let_def)

lemma runesOf_cpOf:
  assumes "b < 256"
  shows "runesOf (EncodeRune (cpOf b)) = [cpOf b]"
proof -
  have "scalar (cpOf b)" using cpOf_scalar [of "byte b"] assms by (simp only: bv_byte)
  then have "runesOf (concat (map EncodeRune [cpOf b]) @ []) = [cpOf b] @ runesOf []"
    by (intro runesOf_concat) simp
  then show ?thesis by simp
qed

lemma EncodeRune_cpOf_inject:
  "a < 256 \<Longrightarrow> b < 256 \<Longrightarrow> EncodeRune (cpOf a) = EncodeRune (cpOf b) \<longleftrightarrow> a = b"
  by (metis runesOf_cpOf cpOf_inject list.inject)

lemma EncodeRune_not_ab: "b < 256 \<Longrightarrow> EncodeRune (cpOf b) \<noteq> ''ab''"
proof
  assume b: "b < 256" "EncodeRune (cpOf b) = ''ab''"
  have "runesOf ''ab'' = [97, 98]" by code_simp
  with runesOf_cpOf [OF b(1)] b(2) show False by simp
qed

lemma sample_ids: "ids_ok sampleVocab sampleAdded"
  by (auto simp del: upt_rec_numeral simp: ids_ok_def sampleVocab_def sampleAdded_def MaxInt_def list_all_iff)

lemma sample_complete: "files_complete sampleVocab sampleAdded (mergesOf sampleMerges)"
proof -
  have "distinct (map fst sampleVocab)"
    using EncodeRune_not_ab by (auto simp: sampleVocab_def comp_def distinct_map inj_on_def
      EncodeRune_cpOf_inject simp del: upt_rec_numeral upt_Suc dest: sym)
  moreover have "distinct (map snd sampleVocab @ map sp_id sampleAdded)"
    by (auto simp: sampleVocab_def sampleAdded_def comp_def distinct_map inj_on_def simp del: upt_rec_numeral upt_Suc)
  moreover have "list_all (\<lambda>b. EncodeRune (cpOf b) \<in> set (map fst sampleVocab)) [0..<256]"
    by (auto simp: sampleVocab_def list_all_iff image_iff simp del: upt_rec_numeral upt_Suc)
  moreover have "list_all (\<lambda>sp. sp_str sp \<noteq> [] \<and> ascii_printable (sp_str sp)) sampleAdded"
    by (simp add: sampleAdded_def ascii_printable_def)
  ultimately show ?thesis
    unfolding files_complete_def sample_mergesOf
    using sample_ids by (simp add: sampleAdded_def) (simp add: sampleVocab_def image_iff del: upt_rec_numeral)
qed

lemma sampleVocab_valid: "list_all (\<lambda>(k, i). ValidString k \<and> - (2 ^ 63) \<le> i \<and> i \<le> MaxInt) sampleVocab"
proof -
  have "ValidString (EncodeRune (cpOf b))" if "b < 256" for b
    using ValidString_EncodeRune [of "cpOf b" "[]"] cpOf_scalar [of "byte b"] that by (simp only: bv_byte append_Nil2 ValidString_Nil)
  moreover have "ValidString ''ab''"
    using sanitize_ascii by (simp add: ValidString_step DecodeRune_ascii RuneSelf_def RuneError_def)
  ultimately show ?thesis
    by (auto simp: sampleVocab_def MaxInt_def list_all_iff simp del: upt_rec_numeral upt_Suc)
qed

lemma sample_added: "unmarshalAdded (addedText [(257, ''<s>'')]) = Some [(257, ''<s>'')]"
  by (rule unmarshalAdded_text) (simp add: MaxInt_def ValidString_step DecodeRune_ascii RuneSelf_def RuneError_def)

lemma sample_reads: "reads sampleFiles ''m'' sampleVocab sampleAdded sampleMerges"
proof -
  have "distinct (map fst sampleVocab)" using sample_complete by (simp add: files_complete_def)
  from unmarshalVocab_text [OF this sampleVocab_valid] sample_added show ?thesis
    by (simp add: reads_def loadAddedTokens_def loadVocab_def sampleFiles_def sampleAdded_def
      short_lines_def sample_rawLines scanBuffer_def)
qed

subsection \<open>The properties of \<open>Load\<close>\<close>

text \<open>
  C1: loading a complete model directory succeeds, and the tokenizer it gives is
  lossless: every byte string, well-formed or not, is encoded in finitely many steps, and
  decoding the ids gives the string back.
\<close>

theorem Load_lossless:
  assumes "reads env dir vocab sps bs" "files_complete vocab sps (mergesOf bs)"
  shows "\<exists>t. Load env dir = Inr t \<and> (\<exists>ids. Encode t tx = Some ids \<and> Decode t ids = tx)"
proof -
  have ids: "ids_ok vocab sps" using assms(2) by (simp add: files_complete_def)
  have ok: "enc_ok (loaded vocab sps (mergesOf bs))" by (rule complete_enc_ok [OF assms(2)])
  then have "no_empty_special (loaded vocab sps (mergesOf bs))" by (simp add: enc_ok_def)
  then show ?thesis
    using Load_loaded [OF assms(1) ids] encodeRest_lossless [OF ok] by (simp add: Encode_encodeRest)
qed

lemma Load_lossless_witness:
  "\<exists>t. Load sampleFiles ''m'' = Inr t \<and>
     (\<exists>ids. Encode t ''abba<s> ab'' = Some ids \<and> Decode t ids = ''abba<s> ab'')"
  by (rule Load_lossless [OF sample_reads sample_complete])



text \<open>
  After loading, exactly the ids of the added tokens are special, and the ids
  run from 0 to the largest one in either file.
\<close>

theorem Load_special_ids:
  assumes "reads env dir vocab sps bs" "ids_ok vocab sps"
  shows "\<exists>t. Load env dir = Inr t \<and> (\<forall>i. IsSpecial t i \<longleftrightarrow> i \<in> set (map sp_id sps)) \<and>
     VocabSize t = maxOf (map sp_id sps) (maxOf (map snd vocab) 0) + 1"
  using Load_loaded [OF assms] loaded_IsSpecial [OF assms(2)] loaded_VocabSize [OF assms(2)] by simp

lemma Load_special_ids_witness:
  "\<exists>t. Load sampleFiles ''m'' = Inr t \<and> (\<forall>i. IsSpecial t i \<longleftrightarrow> i \<in> set (map sp_id sampleAdded)) \<and>
     VocabSize t = maxOf (map sp_id sampleAdded) (maxOf (map snd sampleVocab) 0) + 1"
  by (rule Load_special_ids [OF sample_reads sample_ids])



text \<open>
  C31: a negative id in \<open>vocab.json\<close> is not reported as an error: \<open>Load\<close> panics on
  the index, whatever the rest of the directory holds.
\<close>

theorem Load_negative_id_panics:
  assumes "loadAddedTokens env (dir @ ''/tokenizer.json'') = Inr sps"
    and "loadVocab env (dir @ ''/vocab.json'') = Inr vocab"
    and "(sy, i) \<in> set vocab" "i < 0"
  shows "Load env dir = Inl Panic"
proof -
  have "\<not> list_all (in_range n) (map snd vocab)" for n
    using assms(3,4) by (force simp: list_all_iff)
  then have "storeVocab vocab t = None" for t by (simp only: storeVocab_eq if_False)
  then show ?thesis
    unfolding Load_def assms(1,2) sum.case Let_def by simp
qed

definition badFiles :: files where
  "badFiles = sampleFiles\<lparr>ReadFile := (\<lambda>p. Inr (if p = ''m/vocab.json'' then vocabText [(''a'', 0), (''b'', - 1)]
     else addedText [(257, ''<s>'')]))\<rparr>"

lemma Load_negative_id_panics_witness: "Load badFiles ''m'' = Inl Panic"
proof (rule Load_negative_id_panics [where sps = sampleAdded and vocab = "[(''a'', 0), (''b'', - 1)]" and sy = "''b''" and i = "- 1"])
  have "unmarshalVocab (vocabText [(''a'', 0), (''b'', - 1)]) = Some [(''a'', 0), (''b'', - 1)]"
    by (rule unmarshalVocab_text)
      (simp_all add: MaxInt_def ValidString_step DecodeRune_ascii RuneSelf_def RuneError_def)
  then show "loadVocab badFiles (''m'' @ ''/vocab.json'') = Inr [(''a'', 0), (''b'', - 1)]"
    by (simp add: loadVocab_def badFiles_def sampleFiles_def)
  show "loadAddedTokens badFiles (''m'' @ ''/tokenizer.json'') = Inr sampleAdded"
    by (simp add: loadAddedTokens_def badFiles_def sample_added sampleAdded_def)
qed simp_all

end
