(* ===== verification/EngineClient.thy ===== *)
theory EngineClient
  imports Decimal
begin

section \<open>The transport tier\<close>

text \<open>
  \<open>internal/engine/client.go\<close> and the plain data of \<open>internal/engine/types.go\<close>: the error
  taxonomy, the event loop of \<open>stream\<close>, \<open>GetModel\<close> and the readiness poll.  gRPC itself is
  not code of the repository: what an RPC returns is an argument.  A \<open>Recv\<close> loop is a function
  of the list of results \<open>Recv\<close> gives; \<open>None\<close> is a loop still waiting for the next one.
\<close>

subsection \<open>Errors\<close>

datatype sentinel = ErrOverCapacity | ErrEngineInternal | ErrPromptTooLong

fun sentinelText :: "sentinel \<Rightarrow> gostring" where
  "sentinelText ErrOverCapacity = ''engine over capacity''"
| "sentinelText ErrEngineInternal = ''engine internal error''"
| "sentinelText ErrPromptTooLong = ''prompt exceeds context window''"

text \<open>\<open>fmt.Errorf("%w: %s", sentinel, msg)\<close>, or an error from below.\<close>

datatype goerror = Wrapped sentinel gostring | Plain gostring

fun errText :: "goerror \<Rightarrow> gostring" where
  "errText (Wrapped s msg) = sentinelText s @ '': '' @ msg"
| "errText (Plain msg) = msg"

definition errIs :: "goerror \<Rightarrow> sentinel \<Rightarrow> bool" where
  "errIs e s = (case e of Wrapped s' _ \<Rightarrow> s' = s | Plain _ \<Rightarrow> False)"

text \<open>The enum of the protocol, open to unknown codes.\<close>

record pb_Error =
  pe_Code :: int32
  pe_Message :: gostring

abbreviation ERROR_CODE_OVER_CAPACITY :: int32 where
  "ERROR_CODE_OVER_CAPACITY \<equiv> 1"

definition errorFor :: "pb_Error \<Rightarrow> goerror" where
  "errorFor e =
     (if pe_Code e = ERROR_CODE_OVER_CAPACITY then Wrapped ErrOverCapacity (pe_Message e)
      else Wrapped ErrEngineInternal (pe_Message e))"

subsection \<open>The event loop\<close>

record Stats =
  s_FinishReason :: gostring
  s_PromptTokens :: int
  s_CompletionTokens :: int

record pb_Done =
  d_FinishReason :: gostring
  d_PromptTokens :: int32
  d_CompletionTokens :: int32

datatype recv =
    TokenId int32
  | Done pb_Done
  | Error pb_Error
  | OtherEvent
  | EOF
  | RecvErr gostring

text \<open>
  \<open>onToken\<close> threads the state the callback's closure captures.  The result is that state and,
  once the loop has returned, its value.
\<close>

fun streamLoop ::
  "(int32 \<Rightarrow> 's \<Rightarrow> 's) \<Rightarrow> recv list \<Rightarrow> 's \<Rightarrow> 's \<times> (goerror + Stats) option" where
  "streamLoop onToken [] s = (s, None)"
| "streamLoop onToken (ev # evs) s =
     (case ev of
        EOF \<Rightarrow> (s, Some (Inr \<lparr>s_FinishReason = ''stop'', s_PromptTokens = 0, s_CompletionTokens = 0\<rparr>))
      | RecvErr e \<Rightarrow> (s, Some (Inl (Plain e)))
      | TokenId i \<Rightarrow> streamLoop onToken evs (onToken i s)
      | Done d \<Rightarrow> (s, Some (Inr \<lparr>s_FinishReason = d_FinishReason d,
                    s_PromptTokens = of_int32 (d_PromptTokens d),
                    s_CompletionTokens = of_int32 (d_CompletionTokens d)\<rparr>))
      | Error x \<Rightarrow> (s, Some (Inl (errorFor x)))
      | OtherEvent \<Rightarrow> streamLoop onToken evs s)"

text \<open>Opening the RPC fails with an error, or gives the stream.\<close>

definition stream_rpc ::
  "gostring + recv list \<Rightarrow> (int32 \<Rightarrow> 's \<Rightarrow> 's) \<Rightarrow> 's \<Rightarrow> 's \<times> (goerror + Stats) option" where
  "stream_rpc rpc onToken s =
     (case rpc of
        Inl e \<Rightarrow> (s, Some (Inl (Plain e)))
      | Inr evs \<Rightarrow> streamLoop onToken evs s)"

text \<open>The tokens before the event that ends the stream, and that event.\<close>

fun isTerminal :: "recv \<Rightarrow> bool" where
  "isTerminal (TokenId i) = False"
| "isTerminal OtherEvent = False"
| "isTerminal _ = True"

fun tokenOf :: "recv \<Rightarrow> int32 option" where
  "tokenOf (TokenId i) = Some i"
| "tokenOf _ = None"

definition tokensOf :: "recv list \<Rightarrow> int32 list" where
  "tokensOf evs = List.map_filter tokenOf (takeWhile (\<lambda>e. \<not> isTerminal e) evs)"

fun outcome :: "recv \<Rightarrow> goerror + Stats" where
  "outcome EOF = Inr \<lparr>s_FinishReason = ''stop'', s_PromptTokens = 0, s_CompletionTokens = 0\<rparr>"
| "outcome (Done d) = Inr \<lparr>s_FinishReason = d_FinishReason d,
     s_PromptTokens = of_int32 (d_PromptTokens d), s_CompletionTokens = of_int32 (d_CompletionTokens d)\<rparr>"
| "outcome (RecvErr e) = Inl (Plain e)"
| "outcome (Error x) = Inl (errorFor x)"
| "outcome _ = Inl (Plain [])"

definition endOf :: "recv list \<Rightarrow> (goerror + Stats) option" where
  "endOf evs = (case dropWhile (\<lambda>e. \<not> isTerminal e) evs of [] \<Rightarrow> None | e # _ \<Rightarrow> Some (outcome e))"

lemma streamLoop_eq: "streamLoop onToken evs s = (fold onToken (tokensOf evs) s, endOf evs)"
  by (induction evs arbitrary: s)
    (auto simp: tokensOf_def endOf_def map_filter_simps split: recv.split)

lemma stream_rpc_eq:
  "stream_rpc rpc onToken s =
     (case rpc of Inl e \<Rightarrow> (s, Some (Inl (Plain e)))
      | Inr evs \<Rightarrow> (fold onToken (tokensOf evs) s, endOf evs))"
  by (simp add: stream_rpc_def streamLoop_eq split: sum.split)

lemma endOf_append:
  "endOf evs \<noteq> None \<Longrightarrow> endOf (evs @ rest) = endOf evs \<and> tokensOf (evs @ rest) = tokensOf evs"
proof (induction evs)
  case (Cons e evs)
  then show ?case by (cases "isTerminal e") (auto simp: endOf_def tokensOf_def map_filter_simps split: option.split)
qed (simp add: endOf_def)

subsection \<open>Metadata and readiness\<close>

record ModelInfo =
  mi_ID :: gostring
  mi_MaxCtx :: int
  mi_VocabSize :: int

record pb_ModelInfo =
  pm_Id :: gostring
  pm_MaxCtx :: int32
  pm_VocabSize :: int32

definition GetModel :: "gostring + pb_ModelInfo \<Rightarrow> goerror + ModelInfo" where
  "GetModel rpc =
     (case rpc of
        Inl e \<Rightarrow> Inl (Plain e)
      | Inr mi \<Rightarrow> Inr \<lparr>mi_ID = pm_Id mi, mi_MaxCtx = of_int32 (pm_MaxCtx mi),
                     mi_VocabSize = of_int32 (pm_VocabSize mi)\<rparr>)"

text \<open>
  One round of the poll: the RPC's result, what \<open>aliveCheck\<close> says if it is asked, and the time
  at which the deadline is compared.  \<open>aliveCheck\<close> itself may be nil.
\<close>

record probe =
  pr_rpc :: "gostring + pb_ModelInfo"
  pr_exit :: "goerror option"
  pr_now :: int

fun waitLoop :: "gostring \<Rightarrow> bool \<Rightarrow> int \<Rightarrow> probe list \<Rightarrow> (goerror + ModelInfo) option" where
  "waitLoop timeoutText hasCheck deadline [] = None"
| "waitLoop timeoutText hasCheck deadline (p # ps) =
     (case GetModel (pr_rpc p) of
        Inr info \<Rightarrow> Some (Inr info)
      | Inl _ \<Rightarrow>
        (case (if hasCheck then pr_exit p else None) of
           Some e \<Rightarrow> Some (Inl e)
         | None \<Rightarrow>
           if deadline < pr_now p
           then Some (Inl (Plain (''engine did not become ready within '' @ timeoutText)))
           else waitLoop timeoutText hasCheck deadline ps))"

definition WaitReady ::
  "int \<Rightarrow> int \<Rightarrow> bool \<Rightarrow> probe list \<Rightarrow> (goerror + ModelInfo) option" where
  "WaitReady now timeout hasCheck ps =
     waitLoop (durationString timeout) hasCheck (now + timeout) ps"

text \<open>A round that decides nothing: the engine does not answer, runs, and there is time left.\<close>

definition undecided :: "bool \<Rightarrow> int \<Rightarrow> probe \<Rightarrow> bool" where
  "undecided hasCheck deadline p =
     ((case pr_rpc p of Inl _ \<Rightarrow> True | Inr _ \<Rightarrow> False) \<and>
      (hasCheck \<longrightarrow> pr_exit p = None) \<and> pr_now p \<le> deadline)"

lemma waitLoop_step:
  "waitLoop tt c d (p # ps) = (if undecided c d p then waitLoop tt c d ps else waitLoop tt c d [p])"
  by (auto simp: undecided_def GetModel_def split: sum.splits option.splits)

lemma waitLoop_one: "waitLoop tt c d [p] = None \<longleftrightarrow> undecided c d p"
  by (auto simp: undecided_def GetModel_def split: sum.splits option.splits)

declare waitLoop.simps(2) [simp del]

lemma waitLoop_undecided:
  "list_all (undecided c d) ps \<Longrightarrow> waitLoop tt c d (ps @ qs) = waitLoop tt c d qs"
proof (induction ps)
  case (Cons p ps)
  then show ?case using waitLoop_step [of tt c d p "ps @ qs"] by simp
qed simp

lemma waitLoop_None: "waitLoop tt c d ps = None \<longleftrightarrow> list_all (undecided c d) ps"
proof (induction ps)
  case (Cons p ps)
  then show ?case using waitLoop_step [of tt c d p ps] waitLoop_one [of tt c d p] by simp
qed simp

subsection \<open>The properties of the transport tier\<close>

text \<open>
  A response stream that ends without a \<open>Done\<close> event counts as a normal stop: the
  tokens so far are kept and the usage is reported as zero.
\<close>

theorem eof_is_success:
  "streamLoop onToken (map TokenId ws @ EOF # evs) s =
     (fold onToken ws s, Some (Inr \<lparr>s_FinishReason = ''stop'', s_PromptTokens = 0, s_CompletionTokens = 0\<rparr>))"
  by (induction ws arbitrary: s) simp_all

text \<open>
  The readiness poll ends: once a round begins its last comparison after the
  deadline, \<open>WaitReady\<close> has returned, with the model's metadata or an error.
\<close>

theorem WaitReady_returns:
  assumes "p \<in> set ps" "now + timeout < pr_now p"
  shows "\<exists>r. WaitReady now timeout hasCheck ps = Some r"
proof -
  have "\<not> undecided hasCheck (now + timeout) p" using assms(2) by (simp add: undecided_def)
  then have "\<not> list_all (undecided hasCheck (now + timeout)) ps" using assms(1) by (auto simp: list_all_iff)
  then show ?thesis unfolding WaitReady_def by (metis waitLoop_None not_Some_eq)
qed

lemma WaitReady_returns_witness:
  "\<exists>r. WaitReady 0 1800 True
     [\<lparr>pr_rpc = Inl ''refused'', pr_exit = None, pr_now = 3\<rparr>,
      \<lparr>pr_rpc = Inl ''refused'', pr_exit = None, pr_now = 1801\<rparr>] = Some r"
  by (rule WaitReady_returns [where p = "\<lparr>pr_rpc = Inl ''refused'', pr_exit = None, pr_now = 1801\<rparr>"])
    simp_all

end
