(* ===== verification/ChatFormat.thy ===== *)
theory ChatFormat
  imports Encode Json
begin

section \<open>ChatML: vocabulary and format constants\<close>

text \<open>
  \<open>internal/chatml/types.go\<close> (the neutral message and tool types) and
  \<open>internal/chatml/chatml.go\<close>: \<open>Load\<close>, which resolves the tool markers and the stop ids, here
  \<open>FormatLoad\<close>, and \<open>StopTokenIDs\<close>.  \<open>os.ReadFile\<close> is an argument, with \<open>None\<close> for an error.
\<close>

record ToolCall =
  tc_ID :: gostring
  tc_Name :: gostring
  tc_ArgumentsJSON :: gostring

record Message =
  Role :: gostring
  Content :: gostring
  ToolCalls :: "ToolCall list"
  ToolCallID :: gostring

record ToolDef =
  td_Name :: gostring
  td_Description :: gostring
  td_ParametersJSON :: gostring

record format =
  fm_tok :: tokenizer
  eosIDs :: "int list"
  toolOpen :: int
  toolClose :: int

type_synonym file_reader = "gostring \<Rightarrow> gostring option"

text \<open>The nil slice is the empty list: the only caller looks at its length.\<close>

definition eosFromGenerationConfig :: "file_reader \<Rightarrow> gostring \<Rightarrow> int list" where
  "eosFromGenerationConfig read dir =
     (case read (dir @ ''/generation_config.json'') of
        None \<Rightarrow> []
      | Some b \<Rightarrow>
        (case unmarshal (\<lambda>v. map_option (rawField ''eos_token_id'') (structOf v)) b of
           None \<Rightarrow> []
         | Some EOS \<Rightarrow>
           if length EOS = 0 then [] else
           (case unmarshalInts EOS of
              Some l \<Rightarrow> l
            | None \<Rightarrow>
              (case unmarshalInt EOS of Some i \<Rightarrow> [i] | None \<Rightarrow> []))))"

definition FormatLoad :: "file_reader \<Rightarrow> gostring \<Rightarrow> tokenizer \<Rightarrow> format" where
  "FormatLoad read dir tok =
     (let m0 = \<lparr>fm_tok = tok, eosIDs = [], toolOpen = - 1, toolClose = - 1\<rparr>;
          m1 = (case ID tok ''<tool_call>'' of Some i \<Rightarrow> m0\<lparr>toolOpen := i\<rparr> | None \<Rightarrow> m0);
          m2 = (case ID tok ''</tool_call>'' of Some i \<Rightarrow> m1\<lparr>toolClose := i\<rparr> | None \<Rightarrow> m1);
          m3 = m2\<lparr>eosIDs := eosFromGenerationConfig read dir\<rparr> in
      if length (eosIDs m3) = 0
      then m3\<lparr>eosIDs := List.map_filter (ID tok) [''<|im_end|>'', ''<|endoftext|>'']\<rparr>
      else m3)"

definition StopTokenIDs :: "format \<Rightarrow> int32 list" where
  "StopTokenIDs m = map to_int32 (eosIDs m)"

subsection \<open>What loading gives\<close>

lemma FormatLoad_fields:
  "fm_tok (FormatLoad read dir tok) = tok"
  "toolOpen (FormatLoad read dir tok) = (case ID tok ''<tool_call>'' of Some i \<Rightarrow> i | None \<Rightarrow> - 1)"
  "toolClose (FormatLoad read dir tok) = (case ID tok ''</tool_call>'' of Some i \<Rightarrow> i | None \<Rightarrow> - 1)"
  "eosIDs (FormatLoad read dir tok) =
     (if eosFromGenerationConfig read dir = []
      then List.map_filter (ID tok) [''<|im_end|>'', ''<|endoftext|>'']
      else eosFromGenerationConfig read dir)"
  by (simp_all add: FormatLoad_def Let_def split: option.splits)

lemma StopTokenIDs_exact:
  "list_all (\<lambda>i. - (2 ^ 31) \<le> i \<and> i < 2 ^ 31) (eosIDs m) \<Longrightarrow>
   map of_int32 (StopTokenIDs m) = eosIDs m"
  unfolding StopTokenIDs_def by (induction "eosIDs m" arbitrary: m) (auto simp: list_all_iff of_to_int32 intro!: map_idI)

end
