(* ===== verification/RuneBuffer.thy ===== *)
theory RuneBuffer
  imports Utf8
begin

section \<open>Holding back half-finished runes\<close>

text \<open>
  \<open>takeRunes\<close> of \<open>internal/engine/generate.go\<close>: the completion path appends each token's
  bytes to a buffer and drains the prefix that forms complete runes.  The Go code scans with
  an index; \<open>takeRunes_loop\<close> is that loop, \<open>takeRunes\<close> the whole function, returning the
  drained text and the new contents of the buffer.  The contract a drain keeps towards its
  callers is the locale \<open>drain\<close>, on which the streaming results are proved once; the second
  copy of the routine, in \<open>internal/chatml/stream.go\<close>, is in \<open>ChatStream\<close>.
\<close>

subsection \<open>The scan and the drain\<close>

function takeRunes_loop :: "gostring \<Rightarrow> nat \<Rightarrow> nat" where
  "takeRunes_loop b i =
     (if i < length b then
        if bv (b ! i) < RuneSelf then takeRunes_loop b (i + 1)
        else if \<not> FullRune (drop i b) then i
        else takeRunes_loop b (i + snd (DecodeRune (drop i b)))
      else i)"
  by pat_completeness auto
termination
  by (relation "measure (\<lambda>(b, i). length b - i)") (auto simp: DecodeRune_pos intro: diff_less_mono2)

declare takeRunes_loop.simps [simp del]

definition takeRunes :: "gostring \<Rightarrow> gostring \<times> gostring" where
  "takeRunes buf =
     (let i = takeRunes_loop buf 0 in
      if i = 0 then ([], buf)
      else (take i buf, drop i buf))"

subsection \<open>The scan in terms of the rest of the buffer\<close>

text \<open>The length of the longest prefix made of complete runes, by recursion on the bytes.\<close>

function runeCut :: "gostring \<Rightarrow> nat" where
  "runeCut b =
     (if FullRune b then snd (DecodeRune b) + runeCut (drop (snd (DecodeRune b)) b) else 0)"
  by pat_completeness auto
termination
proof (relation "measure length", goal_cases)
  case (2 b)
  then have "b \<noteq> []" by auto
  then show ?case using DecodeRune_pos [of b] by simp
qed simp

declare runeCut.simps [simp del]

lemma runeCut_full:
  "FullRune b \<Longrightarrow> runeCut b = snd (DecodeRune b) + runeCut (drop (snd (DecodeRune b)) b)"
  by (subst runeCut.simps) simp

lemma runeCut_stop: "\<not> FullRune b \<Longrightarrow> runeCut b = 0"
  by (subst runeCut.simps) simp

lemma runeCut_le: "runeCut b \<le> length b"
proof (induction b rule: runeCut.induct)
  case (1 b)
  then show ?case using DecodeRune_le_length [of b]
    by (cases "FullRune b") (auto simp: runeCut_full runeCut_stop)
qed

lemma takeRunes_loop_runeCut:
  "i \<le> length b \<Longrightarrow> takeRunes_loop b i = i + runeCut (drop i b)"
proof (induction b i rule: takeRunes_loop.induct)
  case (1 b i)
  show ?case
  proof (cases "i < length b")
    case False
    with "1.prems" show ?thesis
      by (simp add: takeRunes_loop.simps [of b "length b"] runeCut_stop)
  next
    case True
    then have ne: "drop i b \<noteq> []" and hd: "drop i b ! 0 = b ! i" by simp_all
    let ?w = "snd (DecodeRune (drop i b))"
    have w: "i + ?w \<le> length b"
      using DecodeRune_le_length [of "drop i b"] True by simp
    consider (ascii) "bv (b ! i) < RuneSelf"
      | (half) "\<not> bv (b ! i) < RuneSelf" "\<not> FullRune (drop i b)"
      | (multi) "\<not> bv (b ! i) < RuneSelf" "FullRune (drop i b)" by blast
    then show ?thesis
    proof cases
      case ascii
      then have "DecodeRune (drop i b) = (bv (b ! i), 1)" "FullRune (drop i b)"
        using DecodeRune_ascii [OF ne] FullRune_ascii [OF ne] hd by simp_all
      then show ?thesis using "1.IH"(1) [OF True ascii] True ascii
        by (simp add: takeRunes_loop.simps [of b i] runeCut_full [of "drop i b"])
    next
      case half
      then show ?thesis using True by (simp add: takeRunes_loop.simps [of b i] runeCut_stop)
    next
      case multi
      then show ?thesis using "1.IH"(2) True w
        by (simp add: takeRunes_loop.simps [of b i] runeCut_full [of "drop i b"] add.commute)
    qed
  qed
qed

lemma takeRunes_cut: "takeRunes b = (take (runeCut b) b, drop (runeCut b) b)"
  by (simp add: takeRunes_def takeRunes_loop_runeCut Let_def)

subsection \<open>What a drain promises\<close>

lemma runeCut_rest: "\<not> FullRune (drop (runeCut b) b)"
proof (induction b rule: runeCut.induct)
  case (1 b)
  then show ?case
    by (cases "FullRune b") (auto simp: runeCut_full runeCut_stop add.commute)
qed

lemma runeCut_append: "runeCut (b @ c) = runeCut b + runeCut (drop (runeCut b) b @ c)"
proof (induction b rule: runeCut.induct)
  case (1 b)
  show ?case
  proof (cases "FullRune b")
    case True
    let ?w = "snd (DecodeRune b)"
    have "runeCut (b @ c) = ?w + runeCut (drop ?w b @ c)"
      using True DecodeRune_le_length [of b]
      by (simp add: runeCut_full FullRune_append DecodeRune_append)
    with 1 [OF True] True show ?thesis by (simp add: runeCut_full add.commute)
  qed (simp add: runeCut_stop)
qed

lemma runeCut_valid:
  "ValidString (b @ c) \<Longrightarrow>
   ValidString (take (runeCut b) b) \<and> ValidString (drop (runeCut b) b @ c)"
proof (induction b rule: runeCut.induct)
  case (1 b)
  show ?case
  proof (cases "FullRune b")
    case True
    then have ne: "b \<noteq> []" by auto
    let ?w = "snd (DecodeRune b)"
    have d: "DecodeRune (b @ c) = DecodeRune b" using True by (rule DecodeRune_append)
    have le: "?w \<le> length b" by (rule DecodeRune_le_length)
    from "1.prems" ne d le have ok: "DecodeRune b \<noteq> (RuneError, 1)" "ValidString (drop ?w b @ c)"
      by (simp_all add: ValidString_step [of "b @ c"])
    from "1.IH" [OF True ok(2)] show ?thesis
      using True ValidString_take_step [OF ne ok(1)]
      by (simp add: runeCut_full [of b] take_add add.commute)
  qed (use "1.prems" in \<open>simp add: runeCut_stop\<close>)
qed

text \<open>
  The contract of a drain: it splits the buffer without losing a byte, what it keeps back is
  never a full rune, draining in two steps gives the same text as draining once, and it never
  cuts a rune of a well-formed stream.
\<close>

locale drain =
  fixes drain :: "gostring \<Rightarrow> gostring \<times> gostring"
  assumes drain_split: "fst (drain b) @ snd (drain b) = b"
    and drain_held: "\<not> FullRune (snd (drain b))"
    and drain_more: "drain (b @ c) =
      (fst (drain b) @ fst (drain (snd (drain b) @ c)), snd (drain (snd (drain b) @ c)))"
    and drain_valid: "ValidString (b @ c) \<Longrightarrow>
      ValidString (fst (drain b)) \<and> ValidString (snd (drain b) @ c)"

text \<open>
  Feeding a stream of chunks through a drain: append, drain, keep the rest.  The result is
  the list of texts taken and what is left in the buffer.
\<close>

fun feed ::
  "(gostring \<Rightarrow> gostring \<times> gostring) \<Rightarrow> gostring \<Rightarrow> gostring list \<Rightarrow> gostring list \<times> gostring" where
  "feed d buf [] = ([], buf)"
| "feed d buf (c # cs) =
     (let (t, rest) = d (buf @ c); (ts, left) = feed d rest cs in (t # ts, left))"

context drain
begin

lemma held_length: "length (snd (drain b)) \<le> 3"
  by (rule not_FullRune_short [OF drain_held])

lemma drain_again: "drain (snd (drain b)) = ([], snd (drain b))"
proof -
  have "drain b = (fst (drain b) @ fst (drain (snd (drain b))), snd (drain (snd (drain b))))"
    using drain_more [of b "[]"] by simp
  then have "fst (drain (snd (drain b))) = []" "snd (drain (snd (drain b))) = snd (drain b)"
    by (metis append_self_conv fst_conv, metis snd_conv)
  then show ?thesis by (simp add: prod_eq_iff)
qed

lemma feed_lossless: "concat (fst (feed drain buf cs)) @ snd (feed drain buf cs) = buf @ concat cs"
proof (induction cs arbitrary: buf)
  case (Cons c cs)
  have "fst (drain (buf @ c)) @ snd (drain (buf @ c)) @ concat cs = buf @ c @ concat cs"
    using arg_cong [OF drain_split [of "buf @ c"], of "\<lambda>x. x @ concat cs"] by simp
  with Cons.IH show ?case by (simp add: case_prod_unfold Let_def)
qed simp

lemma feed_batch:
  "drain buf = ([], buf) \<Longrightarrow>
   (concat (fst (feed drain buf cs)), snd (feed drain buf cs)) = drain (buf @ concat cs)"
proof (induction cs arbitrary: buf)
  case (Cons c cs)
  from Cons.IH [OF drain_again [of "buf @ c"]] show ?case
    using drain_more [of "buf @ c" "concat cs"]
    by (simp add: case_prod_unfold Let_def prod_eq_iff)
qed simp

lemma feed_held: "\<not> FullRune buf \<Longrightarrow> \<not> FullRune (snd (feed drain buf cs))"
  by (induction cs arbitrary: buf) (simp_all add: case_prod_unfold Let_def drain_held)

lemma feed_valid:
  "ValidString (buf @ concat cs) \<Longrightarrow>
   list_all ValidString (fst (feed drain buf cs)) \<and> ValidString (snd (feed drain buf cs))"
proof (induction cs arbitrary: buf)
  case (Cons c cs)
  then have "ValidString (fst (drain (buf @ c)))" "ValidString (snd (drain (buf @ c)) @ concat cs)"
    using drain_valid [of "buf @ c" "concat cs"] by simp_all
  with Cons.IH show ?case by (simp add: case_prod_unfold Let_def)
qed simp

lemma feed_valid_flush:
  assumes "ValidString (concat cs)"
  shows "list_all ValidString (fst (feed drain [] cs)) \<and> snd (feed drain [] cs) = []"
  using feed_valid [of "[]" cs] feed_held [of "[]" cs] assms
    not_FullRune_invalid [of "snd (feed drain [] cs)"] by simp blast

end

interpretation eng: drain takeRunes
proof
  fix b c
  show "fst (takeRunes b) @ snd (takeRunes b) = b"
    by (simp add: takeRunes_cut)
  show "\<not> FullRune (snd (takeRunes b))"
    by (simp add: takeRunes_cut runeCut_rest)
  show "takeRunes (b @ c) =
      (fst (takeRunes b) @ fst (takeRunes (snd (takeRunes b) @ c)), snd (takeRunes (snd (takeRunes b) @ c)))"
    by (simp only: takeRunes_cut runeCut_append [of b c] take_drop_past [OF runeCut_le] fst_conv snd_conv)
  show "ValidString (b @ c) \<Longrightarrow> ValidString (fst (takeRunes b)) \<and> ValidString (snd (takeRunes b) @ c)"
    by (simp add: takeRunes_cut runeCut_valid)
qed

end
