(* ===== verification/ChatStream.thy ===== *)
theory ChatStream
  imports ChatFormat RuneBuffer JsonFacts
begin

section \<open>Decoding the engine's token stream\<close>

text \<open>
  \<open>internal/chatml/stream.go\<close>: the \<open>Stream\<close> state and its operations \<open>NewStream\<close>,
  \<open>Push\<close>, \<open>takeRunes\<close> (here \<open>stream_takeRunes\<close>), \<open>Flush\<close> and \<open>parseTool\<close>.
\<close>

record stream =
  st_m :: format
  pending :: gostring
  inTool :: bool
  toolIDs :: "int list"
  nTools :: nat

definition NewStream :: "format \<Rightarrow> stream" where
  "NewStream m = \<lparr>st_m = m, pending = [], inTool = False, toolIDs = [], nTools = 0\<rparr>"

function stream_takeRunes_loop :: "gostring \<Rightarrow> nat \<Rightarrow> nat" where
  "stream_takeRunes_loop b i =
     (if i < length b then
        if bv (b ! i) < RuneSelf then stream_takeRunes_loop b (i + 1)
        else if \<not> FullRune (drop i b) then i
        else stream_takeRunes_loop b (i + snd (DecodeRune (drop i b)))
      else i)"
  by pat_completeness auto
termination
  by (relation "measure (\<lambda>(b, i). length b - i)") (auto simp: DecodeRune_pos intro: diff_less_mono2)

declare stream_takeRunes_loop.simps [simp del]

definition stream_takeRunes :: "stream \<Rightarrow> gostring \<times> stream" where
  "stream_takeRunes s =
     (let i = stream_takeRunes_loop (pending s) 0 in
      if i = 0 then ([], s)
      else (take i (pending s), s\<lparr>pending := drop i (pending s)\<rparr>))"

definition Flush :: "stream \<Rightarrow> gostring \<times> stream" where
  "Flush s =
     (if length (pending s) = 0 then ([], s)
      else (pending s, s\<lparr>pending := []\<rparr>))"

text \<open>\<open>json.Unmarshal\<close> into the struct of \<open>Name\<close> and \<open>Arguments\<close>; \<open>None\<close> is an error.\<close>

definition unmarshalTool :: "gostring \<Rightarrow> (gostring \<times> gostring) option" where
  "unmarshalTool = unmarshal (\<lambda>v. case structOf v of
     None \<Rightarrow> None
   | Some ms \<Rightarrow> map_option (\<lambda>name. (name, rawField ''arguments'' ms)) (stringField ''name'' ms))"

definition parseTool :: "stream \<Rightarrow> ToolCall option \<times> stream" where
  "parseTool s =
     (let raw = Decode (fm_tok (st_m s)) (toolIDs s) in
      case unmarshalTool raw of
        None \<Rightarrow> (None, s)
      | Some (name, arguments) \<Rightarrow>
        if name = [] then (None, s) else
        let args = (if 0 < length arguments then arguments else ''{}'');
            tc = \<lparr>tc_ID = ''call_'' @ itoa (int (nTools s)), tc_Name = name, tc_ArgumentsJSON = args\<rparr> in
        (Some tc, s\<lparr>nTools := nTools s + 1\<rparr>))"

definition Push :: "stream \<Rightarrow> int \<Rightarrow> (gostring \<times> ToolCall option) \<times> stream" where
  "Push s i =
     (if i = toolOpen (st_m s) then (([], None), s\<lparr>inTool := True, toolIDs := []\<rparr>)
      else if i = toolClose (st_m s) then
        let (tc, s') = parseTool (s\<lparr>inTool := False\<rparr>) in (([], tc), s')
      else if inTool s then (([], None), s\<lparr>toolIDs := toolIDs s @ [i]\<rparr>)
      else if IsSpecial (fm_tok (st_m s)) i then (([], None), s)
      else
        let s1 = s\<lparr>pending := pending s @ Decode (fm_tok (st_m s)) [i]\<rparr>;
            (tx, s2) = stream_takeRunes s1 in
        ((tx, None), s2))"

text \<open>A response: the results of the pushes in order, and the final state.\<close>

fun pushes ::
  "stream \<Rightarrow> int list \<Rightarrow> (gostring \<times> ToolCall option) list \<times> stream" where
  "pushes s [] = ([], s)"
| "pushes s (i # ids) =
     (let (r, s1) = Push s i; (rs, s2) = pushes s1 ids in (r # rs, s2))"

subsection \<open>The drain, a second time\<close>

text \<open>The routine is a copy of the engine's; it keeps the same contract.\<close>

lemma stream_takeRunes_loop_eq: "stream_takeRunes_loop b i = takeRunes_loop b i"
proof (induction b i rule: takeRunes_loop.induct)
  case (1 b i)
  then show ?case by (subst takeRunes_loop.simps, subst stream_takeRunes_loop.simps) simp
qed

lemma stream_takeRunes_eq:
  "stream_takeRunes s = (fst (takeRunes (pending s)), s\<lparr>pending := snd (takeRunes (pending s))\<rparr>)"
  by (simp add: stream_takeRunes_def takeRunes_def stream_takeRunes_loop_eq Let_def)

definition drainPending :: "stream \<Rightarrow> gostring \<Rightarrow> gostring \<times> gostring" where
  "drainPending s b = (let (tx, s') = stream_takeRunes (s\<lparr>pending := b\<rparr>) in (tx, pending s'))"

lemma drainPending_takeRunes: "drainPending s = takeRunes"
  by (simp add: fun_eq_iff drainPending_def stream_takeRunes_eq)

interpretation cml: drain "drainPending s" for s
  unfolding drainPending_takeRunes by unfold_locales

lemma stream_takeRunes_drain:
  "stream_takeRunes s = (fst (drainPending s (pending s)), s\<lparr>pending := snd (drainPending s (pending s))\<rparr>)"
  by (simp add: stream_takeRunes_eq drainPending_takeRunes)

text \<open>The stream's state does not influence how it drains.\<close>

lemma drainPending_state: "drainPending s = drainPending s'"
  by (simp add: drainPending_takeRunes)

subsection \<open>What the text of a response is\<close>

text \<open>
  The tokens whose bytes a response shows: those outside tool calls that are neither markers
  nor special.  \<open>inT\<close> is whether a tool call is open.
\<close>

fun visible :: "format \<Rightarrow> bool \<Rightarrow> int list \<Rightarrow> int list" where
  "visible m inT [] = []"
| "visible m inT (i # ids) =
     (if i = toolOpen m then visible m True ids
      else if i = toolClose m then visible m False ids
      else if inT \<or> IsSpecial (fm_tok m) i then visible m inT ids
      else i # visible m inT ids)"

lemma parseTool_state:
  "st_m (snd (parseTool s)) = st_m s" "pending (snd (parseTool s)) = pending s"
  "inTool (snd (parseTool s)) = inTool s" "toolIDs (snd (parseTool s)) = toolIDs s"
  by (simp_all add: parseTool_def Let_def split: option.split prod.split)

lemma Push_cases:
  obtains (opens) "i = toolOpen (st_m s)"
      "Push s i = (([], None), s\<lparr>inTool := True, toolIDs := []\<rparr>)"
    | (closes) "i \<noteq> toolOpen (st_m s)" "i = toolClose (st_m s)"
      "Push s i = (([], fst (parseTool (s\<lparr>inTool := False\<rparr>))), snd (parseTool (s\<lparr>inTool := False\<rparr>)))"
    | (tool) "i \<noteq> toolOpen (st_m s)" "i \<noteq> toolClose (st_m s)" "inTool s"
      "Push s i = (([], None), s\<lparr>toolIDs := toolIDs s @ [i]\<rparr>)"
    | (hidden) "i \<noteq> toolOpen (st_m s)" "i \<noteq> toolClose (st_m s)" "\<not> inTool s"
      "IsSpecial (fm_tok (st_m s)) i" "Push s i = (([], None), s)"
    | (shown) "i \<noteq> toolOpen (st_m s)" "i \<noteq> toolClose (st_m s)" "\<not> inTool s"
      "\<not> IsSpecial (fm_tok (st_m s)) i"
      "Push s i = ((fst (drainPending s (pending s @ Decode (fm_tok (st_m s)) [i])), None),
         s\<lparr>pending := snd (drainPending s (pending s @ Decode (fm_tok (st_m s)) [i]))\<rparr>)"
proof -
  consider "i = toolOpen (st_m s)" | "i \<noteq> toolOpen (st_m s)" "i = toolClose (st_m s)"
    | "i \<noteq> toolOpen (st_m s)" "i \<noteq> toolClose (st_m s)" "inTool s"
    | "i \<noteq> toolOpen (st_m s)" "i \<noteq> toolClose (st_m s)" "\<not> inTool s" "IsSpecial (fm_tok (st_m s)) i"
    | "i \<noteq> toolOpen (st_m s)" "i \<noteq> toolClose (st_m s)" "\<not> inTool s" "\<not> IsSpecial (fm_tok (st_m s)) i"
    by blast
  then show ?thesis
    using that by cases (simp_all add: Push_def Let_def case_prod_unfold stream_takeRunes_drain
      drainPending_state [of "s\<lparr>pending := b\<rparr>" s for b])
qed

lemma Push_format [simp]: "st_m (snd (Push s i)) = st_m s"
  by (cases rule: Push_cases [of i s]) (simp_all add: parseTool_state)

text \<open>
  The text of the response: what was pending, then the visible tokens.  A buffer that holds no
  full rune stays so, and the deltas are the drain of the whole.
\<close>

definition streamText :: "stream \<Rightarrow> int list \<Rightarrow> gostring" where
  "streamText s ids = pending s @ Decode (fm_tok (st_m s)) (visible (st_m s) (inTool s) ids)"

lemma pushes_drain:
  assumes "\<not> FullRune (pending s)"
  shows "(concat (map fst (fst (pushes s ids))), pending (snd (pushes s ids))) =
    drainPending s (streamText s ids)"
  using assms
proof (induction ids arbitrary: s)
  case Nil
  then show ?case by (simp add: streamText_def drainPending_takeRunes takeRunes_cut runeCut_stop)
next
  case (Cons i ids)
  show ?case
  proof (cases rule: Push_cases [of i s])
    case shown
    let ?b = "pending s @ Decode (fm_tok (st_m s)) [i]"
    let ?s = "s\<lparr>pending := snd (drainPending s ?b)\<rparr>"
    have "\<not> FullRune (pending ?s)" by (simp add: cml.drain_held)
    from Cons.IH [OF this] show ?thesis
      using shown cml.drain_more [of s ?b]
      by (simp add: case_prod_unfold Let_def streamText_def prod_eq_iff drainPending_state [of ?s s]
          Decode_Cons [of _ i "visible _ _ _"])
  qed (use Cons in \<open>simp_all add: case_prod_unfold Let_def streamText_def parseTool_state
      drainPending_takeRunes\<close>)
qed

text \<open>No delta cuts a rune of a well-formed response.\<close>

lemma pushes_valid:
  "ValidString (streamText s ids) \<Longrightarrow> list_all ValidString (map fst (fst (pushes s ids)))"
proof (induction ids arbitrary: s)
  case (Cons i ids)
  show ?case
  proof (cases rule: Push_cases [of i s])
    case shown
    let ?b = "pending s @ Decode (fm_tok (st_m s)) [i]"
    let ?s = "s\<lparr>pending := snd (drainPending s ?b)\<rparr>"
    have "ValidString (?b @ Decode (fm_tok (st_m s)) (visible (st_m s) (inTool s) ids))"
      using Cons.prems shown by (simp add: streamText_def Decode_Cons [of _ i "visible _ _ _"])
    from cml.drain_valid [OF this]
    have "ValidString (fst (drainPending s ?b))" "ValidString (streamText ?s ids)"
      by (simp_all add: streamText_def)
    then show ?thesis using shown Cons.IH [of ?s] by (simp add: case_prod_unfold Let_def)
  qed (use Cons in \<open>simp_all add: case_prod_unfold Let_def streamText_def parseTool_state\<close>)
qed simp

subsection \<open>Tool calls\<close>

text \<open>
  What each closing marker hands to the parser: the ids since the last opening marker.  A
  closing marker does not clear them.
\<close>

fun callBodies :: "format \<Rightarrow> bool \<Rightarrow> int list \<Rightarrow> int list \<Rightarrow> int list list" where
  "callBodies m inT body [] = []"
| "callBodies m inT body (i # ids) =
     (if i = toolOpen m then callBodies m True [] ids
      else if i = toolClose m then body # callBodies m False body ids
      else if inT then callBodies m inT (body @ [i]) ids
      else callBodies m inT body ids)"

definition parseBody :: "tokenizer \<Rightarrow> int list \<Rightarrow> (gostring \<times> gostring) option" where
  "parseBody tok body =
     (case unmarshalTool (Decode tok body) of
        None \<Rightarrow> None
      | Some (name, arguments) \<Rightarrow>
        if name = [] then None else Some (name, if arguments = [] then ''{}'' else arguments))"

fun numberCalls :: "nat \<Rightarrow> (gostring \<times> gostring) list \<Rightarrow> ToolCall list" where
  "numberCalls n [] = []"
| "numberCalls n ((name, args) # cs) =
     \<lparr>tc_ID = ''call_'' @ itoa (int n), tc_Name = name, tc_ArgumentsJSON = args\<rparr> # numberCalls (n + 1) cs"

lemma parseTool_parseBody:
  "parseTool s =
     (case parseBody (fm_tok (st_m s)) (toolIDs s) of
        None \<Rightarrow> (None, s)
      | Some (name, args) \<Rightarrow>
          (Some \<lparr>tc_ID = ''call_'' @ itoa (int (nTools s)), tc_Name = name, tc_ArgumentsJSON = args\<rparr>,
           s\<lparr>nTools := nTools s + 1\<rparr>))"
  by (simp add: parseTool_def parseBody_def Let_def split: option.split prod.split)

lemma pushes_calls:
  "List.map_filter snd (fst (pushes s ids)) =
     numberCalls (nTools s) (List.map_filter (parseBody (fm_tok (st_m s)))
       (callBodies (st_m s) (inTool s) (toolIDs s) ids))"
proof (induction ids arbitrary: s)
  case (Cons i ids)
  show ?case
  proof (cases rule: Push_cases [of i s])
    case closes
    show ?thesis
    proof (cases "parseBody (fm_tok (st_m s)) (toolIDs s)")
      case None
      then show ?thesis using closes Cons [of "s\<lparr>inTool := False\<rparr>"]
        by (simp add: case_prod_unfold Let_def map_filter_simps parseTool_parseBody)
    next
      case (Some p)
      obtain name args where "p = (name, args)" by fastforce
      then show ?thesis using Some closes Cons [of "s\<lparr>inTool := False, nTools := nTools s + 1\<rparr>"]
        by (simp add: case_prod_unfold Let_def map_filter_simps parseTool_parseBody)
    qed
  qed (simp_all add: case_prod_unfold Let_def map_filter_simps Cons)
qed (simp add: map_filter_simps)

lemma numberCalls_ids: "map tc_ID (numberCalls n cs) = map (\<lambda>k. ''call_'' @ itoa (int k)) [n..<n + length cs]"
proof (induction n cs rule: numberCalls.induct)
  case (2 n name args cs)
  have "[n..<n + length ((name, args) # cs)] = n # [n + 1..<n + 1 + length cs]"
    by (subst upt_conv_Cons) simp_all
  with 2 show ?case by (simp del: upt_Suc)
qed simp

lemma numberCalls_distinct: "distinct (map tc_ID (numberCalls n cs))"
  unfolding numberCalls_ids by (simp add: distinct_map inj_on_def itoa_nat_inject)

lemma numberCalls_length [simp]: "length (numberCalls n cs) = length cs"
  by (induction n cs rule: numberCalls.induct) simp_all

subsection \<open>The properties of the stream\<close>

text \<open>
  C10: for every response, the text deltas followed by the flush are the decoding
  of the visible tokens as a whole, and at any point at most three bytes are held back, never a
  complete rune.  (\<open>visible\<close>: the tokens outside tool calls that are neither tool markers nor
  special.)
\<close>

theorem stream_lossless:
  "concat (map fst (fst (pushes (NewStream m) ids))) @
     fst (Flush (snd (pushes (NewStream m) ids))) = Decode (fm_tok m) (visible m False ids) \<and>
   \<not> FullRune (pending (snd (pushes (NewStream m) ids))) \<and>
   length (pending (snd (pushes (NewStream m) ids))) \<le> 3"
proof -
  have nf: "\<not> FullRune (pending (NewStream m))" by (simp add: NewStream_def)
  have eq: "concat (map fst (fst (pushes (NewStream m) ids))) =
        fst (drainPending (NewStream m) (Decode (fm_tok m) (visible m False ids)))"
      "pending (snd (pushes (NewStream m) ids)) =
        snd (drainPending (NewStream m) (Decode (fm_tok m) (visible m False ids)))"
    using pushes_drain [OF nf, of ids] by (simp_all add: prod_eq_iff streamText_def) (simp_all add: NewStream_def)
  have "fst (Flush s) = pending s" for s by (simp add: Flush_def)
  then show ?thesis
    by (simp add: eq cml.drain_split cml.drain_held cml.held_length)
qed

text \<open>
  C17: the tool calls of a response are the calls that parse among the bodies its
  closing markers end, in order, and their ids are \<open>call_0\<close>, \<open>call_1\<close> and so on, all
  different.
\<close>

theorem stream_calls:
  "List.map_filter snd (fst (pushes (NewStream m) ids)) =
     numberCalls 0 (List.map_filter (parseBody (fm_tok m)) (callBodies m False [] ids)) \<and>
   distinct (map tc_ID (List.map_filter snd (fst (pushes (NewStream m) ids))))"
  by (simp add: pushes_calls numberCalls_distinct) (simp add: NewStream_def)

lemma callBodies_body:
  "list_all (\<lambda>i. i \<noteq> toolOpen m \<and> i \<noteq> toolClose m) body \<Longrightarrow>
   callBodies m True acc (body @ rest) = callBodies m True (acc @ body) rest"
  by (induction body arbitrary: acc) auto

text \<open>
  C32: a closing marker does not clear the buffered ids: if the model emits a second
  closing marker after a tool call, the same call is reported again under the next id.
\<close>

theorem repeated_close_repeats_call:
  assumes "toolOpen m \<noteq> toolClose m"
    and "list_all (\<lambda>i. i \<noteq> toolOpen m \<and> i \<noteq> toolClose m) body"
    and "parseBody (fm_tok m) body = Some (name, args)"
  shows "List.map_filter snd (fst (pushes (NewStream m)
       (toolOpen m # body @ [toolClose m, toolClose m]))) =
     [\<lparr>tc_ID = ''call_0'', tc_Name = name, tc_ArgumentsJSON = args\<rparr>,
      \<lparr>tc_ID = ''call_1'', tc_Name = name, tc_ArgumentsJSON = args\<rparr>]"
proof -
  have bodies: "callBodies m True [] (body @ [toolClose m, toolClose m]) = [body, body]"
    using callBodies_body [OF assms(2), of "[]"] assms(1) by simp
  have "List.map_filter snd (fst (pushes (NewStream m)
       (toolOpen m # body @ [toolClose m, toolClose m]))) =
      numberCalls 0 (List.map_filter (parseBody (fm_tok m)) [body, body])"
    unfolding pushes_calls by (simp add: NewStream_def bodies)
  moreover have "itoa 0 = ''0''" "itoa 1 = ''1''" by code_simp+
  ultimately show ?thesis using assms(3) by (simp add: map_filter_simps)
qed

text \<open>The text of a call as an object of a name and arguments, blanks after colons and commas.\<close>

definition callText :: "gostring \<Rightarrow> gostring \<Rightarrow> gostring \<Rightarrow> gostring" where
  "callText w name args =
     ''{'' @ [CHR 0x22] @ ''name'' @ [CHR 0x22] @ '':'' @ w @ [CHR 0x22] @ name @ [CHR 0x22] @ '','' @ w @
     [CHR 0x22] @ ''arguments'' @ [CHR 0x22] @ '':'' @ w @ args @ ''}''"

lemma unmarshalTool_callText:
  assumes "plainBody name" "encodes (maxNestingDepth - 1) args v" "list_all isBlank w"
    and "list_all isBlank p" "list_all isBlank q"
  shows "unmarshalTool (p @ callText w name args @ q) = Some (unquote name, args)"
proof -
  let ?ms = "[(''name'', [CHR 0x22] @ name @ [CHR 0x22], JStr name), (''arguments'', args, v)]"
  have keys: "lowerKey ''name''" "lowerKey ''arguments''" by (simp_all add: lowerKey_def)
  have "list_all (member_ok (maxNestingDepth - 1)) ?ms"
    using assms(1,2) encodes_string [OF assms(1)] keys by (simp add: plainBody_lower)
  from encodes_object [OF this assms(3)]
  have "encodes maxNestingDepth (callText w name args) (JObj ?ms)"
    by (simp add: callText_def maxNestingDepth_def)
  from parseJSON_blanks [OF this assms(4,5)] show ?thesis
    using keys by (simp add: unmarshalTool_def unmarshal_def structOf_def stringField_def rawField_def
      isField_lower stringInto_def)
qed

lemma sample_call: "unmarshalTool (callText [] ''f'' ''{}'') = Some (''f'', ''{}'')"
proof -
  have e: "encodes (Suc 0) (''{'' @ memsText [] [] @ ''}'') (JObj [])"
    by (rule encodes_object) simp_all
  have "encodes (maxNestingDepth - 1) ''{}'' (JObj [])"
    using encodes_deeper [OF e, of "maxNestingDepth - 1"] by (simp add: maxNestingDepth_def)
  moreover have "list_all calm ''f''" "sanitize ''f'' = ''f''" by (simp add: calm_def) code_simp
  ultimately show ?thesis
    using unmarshalTool_callText [of "''f''" "''{}''" "JObj []" "[]" "[]" "[]"]
    by (simp add: plain_calm unquote_calm)
qed

definition sampleFormat :: format where
  "sampleFormat =
     \<lparr>fm_tok = new_tokenizer\<lparr>idToTok := [''h'', [CHR 0xE4, CHR 0xB8], [CHR 0xAD], ''<tool_call>'',
          ''</tool_call>'', callText [] ''f'' ''{}''], specialF := [False, False, False, True, True, False]\<rparr>,
      eosIDs = [9], toolOpen = 3, toolClose = 4\<rparr>"

lemma repeated_close_repeats_call_witness:
  "List.map_filter snd (fst (pushes (NewStream sampleFormat)
       (toolOpen sampleFormat # [5] @ [toolClose sampleFormat, toolClose sampleFormat]))) =
     [\<lparr>tc_ID = ''call_0'', tc_Name = ''f'', tc_ArgumentsJSON = ''{}''\<rparr>,
      \<lparr>tc_ID = ''call_1'', tc_Name = ''f'', tc_ArgumentsJSON = ''{}''\<rparr>]"
  by (rule repeated_close_repeats_call)
    (simp_all add: sampleFormat_def sample_call parseBody_def Decode_def)

end
