(* ===== verification/ChatRender.thy ===== *)
theory ChatRender
  imports ChatFormat
begin

section \<open>Rendering a conversation\<close>

text \<open>
  \<open>internal/chatml/render.go\<close>: \<open>toolJSON\<close> and \<open>Format.Render\<close>.  The message loop looks back
  and ahead by index to merge consecutive tool results; \<open>renderFrom\<close> is that loop.  Its
  reference is \<open>turns\<close>, which groups the conversation into turns first.
\<close>

subsection \<open>The code\<close>

definition toolJSON :: "ToolDef \<Rightarrow> gostring" where
  "toolJSON t =
     (let params = (if length (td_ParametersJSON t) = 0 then ''{}'' else td_ParametersJSON t);
          function = [(''name'', GStr (td_Name t)), (''parameters'', GRaw params)];
          function = (if td_Description t \<noteq> []
                      then function @ [(''description'', GStr (td_Description t))] else function);
          obj = GMap [(''type'', GStr ''function''), (''function'', GMap function)] in
      case marshal obj of Some b \<Rightarrow> b | None \<Rightarrow> [])"

abbreviation nl :: gostring where
  "nl \<equiv> [CHR 0x0A]"

abbreviation dq :: gostring where
  "dq \<equiv> [CHR 0x22]"

definition im_start :: "gostring \<Rightarrow> gostring" where
  "im_start role = ''<|im_start|>'' @ role @ nl"

definition im_end :: gostring where
  "im_end = ''<|im_end|>'' @ nl"

definition hasSystem :: "Message list \<Rightarrow> bool" where
  "hasSystem msgs = (0 < length msgs \<and> Role (msgs ! 0) = ''system'')"

definition renderSystem :: "Message list \<Rightarrow> ToolDef list \<Rightarrow> gostring" where
  "renderSystem msgs tools =
     (if 0 < length tools then
        im_start ''system'' @
        (if hasSystem msgs then Content (msgs ! 0) @ nl @ nl else []) @
        ''# Tools'' @ nl @ nl @
        ''You may call one or more functions to assist with the user query.'' @ nl @ nl @
        ''You are provided with function signatures within <tools></tools> XML tags:'' @ nl @
        ''<tools>'' @
        concat (map (\<lambda>t. nl @ toolJSON t) tools) @
        nl @ ''</tools>'' @ nl @ nl @
        ''For each function call, return a json object with function name and '' @
        ''arguments within <tool_call></tool_call> XML tags:'' @ nl @ ''<tool_call>'' @ nl @
        ''{'' @ dq @ ''name'' @ dq @ '': <function-name>, '' @ dq @ ''arguments'' @ dq @
        '': <args-json-object>}'' @ nl @ ''</tool_call>'' @ im_end
      else if hasSystem msgs then
        im_start ''system'' @ Content (msgs ! 0) @ im_end
      else [])"

definition renderCall :: "ToolCall \<Rightarrow> gostring" where
  "renderCall tc =
     (let args = (if tc_ArgumentsJSON tc = [] then ''{}'' else tc_ArgumentsJSON tc) in
      nl @ ''<tool_call>'' @ nl @ ''{'' @ dq @ ''name'' @ dq @ '': '' @ dq @ tc_Name tc @ dq @
      '', '' @ dq @ ''arguments'' @ dq @ '': '' @ args @ ''}'' @ nl @ ''</tool_call>'')"

text \<open>The body of the loop at index \<open>i\<close>.\<close>

definition renderMessage :: "Message list \<Rightarrow> nat \<Rightarrow> nat \<Rightarrow> gostring" where
  "renderMessage msgs start i =
     (let mm = msgs ! i in
      if Role mm = ''user'' then im_start ''user'' @ Content mm @ im_end
      else if Role mm = ''assistant'' then
        im_start ''assistant'' @ Content mm @ concat (map renderCall (ToolCalls mm)) @ im_end
      else if Role mm = ''tool'' then
        (if i = start \<or> Role (msgs ! (i - 1)) \<noteq> ''tool'' then im_start ''user'' else []) @
        ''<tool_response>'' @ nl @ Content mm @ nl @ ''</tool_response>'' @ nl @
        (if length msgs \<le> i + 1 \<or> Role (msgs ! (i + 1)) \<noteq> ''tool'' then im_end else [])
      else [])"

function renderFrom :: "Message list \<Rightarrow> nat \<Rightarrow> nat \<Rightarrow> gostring" where
  "renderFrom msgs start i =
     (if i < length msgs then renderMessage msgs start i @ renderFrom msgs start (i + 1) else [])"
  by pat_completeness auto
termination
  by (relation "measure (\<lambda>(msgs, start, i). length msgs - i)") auto

declare renderFrom.simps [simp del]

definition Render :: "Message list \<Rightarrow> ToolDef list \<Rightarrow> bool \<Rightarrow> gostring" where
  "Render msgs tools enableThinking =
     (let start = (if hasSystem msgs then 1 else 0) in
      renderSystem msgs tools @
      renderFrom msgs start start @
      im_start ''assistant'' @
      (if \<not> enableThinking then ''<think>'' @ nl @ nl @ ''</think>'' @ nl @ nl else []))"

subsection \<open>Turns\<close>

datatype turn =
    UserTurn gostring
  | AssistantTurn gostring "ToolCall list"
  | ToolTurn "gostring list"

abbreviation isTool :: "Message \<Rightarrow> bool" where
  "isTool m \<equiv> Role m = ''tool''"

text \<open>A maximal run of tool results is one turn; messages of any other role are skipped.\<close>

function turns :: "Message list \<Rightarrow> turn list" where
  "turns [] = []"
| "turns (m # ms) =
     (if Role m = ''user'' then UserTurn (Content m) # turns ms
      else if Role m = ''assistant'' then AssistantTurn (Content m) (ToolCalls m) # turns ms
      else if isTool m
      then ToolTurn (map Content (m # takeWhile isTool ms)) # turns (dropWhile isTool ms)
      else turns ms)"
  by pat_completeness auto
termination
  by (relation "measure length") (auto simp: length_dropWhile_le less_Suc_eq_le)

definition showTurn :: "turn \<Rightarrow> gostring" where
  "showTurn t =
     (case t of
        UserTurn c \<Rightarrow> im_start ''user'' @ c @ im_end
      | AssistantTurn c tcs \<Rightarrow> im_start ''assistant'' @ c @ concat (map renderCall tcs) @ im_end
      | ToolTurn cs \<Rightarrow>
          im_start ''user'' @
          concat (map (\<lambda>c. ''<tool_response>'' @ nl @ c @ nl @ ''</tool_response>'' @ nl) cs) @
          im_end)"

text \<open>The loop by recursion on the remaining messages, given whether the last one was a tool result.\<close>

fun renderRest :: "bool \<Rightarrow> Message list \<Rightarrow> gostring" where
  "renderRest prevTool [] = []"
| "renderRest prevTool (m # ms) =
     (if Role m = ''user'' then im_start ''user'' @ Content m @ im_end
      else if Role m = ''assistant'' then
        im_start ''assistant'' @ Content m @ concat (map renderCall (ToolCalls m)) @ im_end
      else if isTool m then
        (if \<not> prevTool then im_start ''user'' else []) @
        ''<tool_response>'' @ nl @ Content m @ nl @ ''</tool_response>'' @ nl @
        (if (case ms of [] \<Rightarrow> True | m' # _ \<Rightarrow> \<not> isTool m') then im_end else [])
      else []) @ renderRest (isTool m) ms"

lemma renderFrom_renderRest:
  assumes "start \<le> i"
  shows "renderFrom msgs start i = renderRest (i \<noteq> start \<and> isTool (msgs ! (i - 1))) (drop i msgs)"
  using assms
proof (induction "length msgs - i" arbitrary: i)
  case 0
  then show ?case by (subst renderFrom.simps) simp
next
  case (Suc n)
  then have i: "i < length msgs" by simp
  have d: "drop i msgs = msgs ! i # drop (Suc i) msgs" using i by (simp add: Cons_nth_drop_Suc)
  have nxt: "(length msgs \<le> Suc i \<or> Role (msgs ! Suc i) \<noteq> ''tool'') =
      (case drop (Suc i) msgs of [] \<Rightarrow> True | m' # _ \<Rightarrow> \<not> isTool m')"
    by (cases "Suc i < length msgs") (simp_all add: Cons_nth_drop_Suc [symmetric])
  have "renderFrom msgs start (Suc i) = renderRest (isTool (msgs ! i)) (drop (Suc i) msgs)"
    using Suc.hyps(1) [of "Suc i"] Suc.hyps(2) Suc.prems by simp
  then show ?case
    using i by (subst renderFrom.simps) (simp add: renderMessage_def Let_def nxt d)
qed

definition showResponse :: "Message \<Rightarrow> gostring" where
  "showResponse m = ''<tool_response>'' @ nl @ Content m @ nl @ ''</tool_response>'' @ nl"

lemma renderRest_tools:
  "renderRest True (m # ms) = concat (map showResponse (m # takeWhile isTool ms)) @ im_end @
     renderRest True (dropWhile isTool ms)" if "isTool m"
  using that
proof (induction ms arbitrary: m)
  case (Cons m' ms)
  then show ?case by (cases "isTool m'") (simp_all add: showResponse_def)
qed (simp add: showResponse_def)

lemma renderRest_not_tool:
  "(case ms of [] \<Rightarrow> True | m # _ \<Rightarrow> \<not> isTool m) \<Longrightarrow> renderRest p ms = renderRest False ms"
  by (cases ms) auto

lemma renderRest_turns: "renderRest False ms = concat (map showTurn (turns ms))"
proof (induction ms rule: turns.induct)
  case (2 m ms)
  show ?case
  proof (cases "isTool m")
    case True
    have "renderRest False (m # ms) = im_start ''user'' @ renderRest True (m # ms)"
      using True by simp
    also have "\<dots> = im_start ''user'' @ concat (map showResponse (m # takeWhile isTool ms)) @ im_end @
        renderRest True (dropWhile isTool ms)"
      by (simp only: renderRest_tools [OF True])
    also have "renderRest True (dropWhile isTool ms) = renderRest False (dropWhile isTool ms)"
      by (rule renderRest_not_tool) (auto simp: dropWhile_eq_Cons_conv split: list.splits)
    finally show ?thesis
      using 2 True by (simp add: showTurn_def showResponse_def comp_def)
  next
    case False
    with 2 show ?thesis by (auto simp: showTurn_def)
  qed
qed simp

text \<open>A message of another role separates the turns on its two sides and leaves no trace.\<close>

abbreviation rendered_role :: "gostring \<Rightarrow> bool" where
  "rendered_role r \<equiv> r = ''user'' \<or> r = ''assistant'' \<or> r = ''tool''"

lemma turns_skip: "\<not> rendered_role (Role x) \<Longrightarrow> turns (a @ x # b) = turns a @ turns b"
proof (induction a rule: turns.induct)
  case (2 m ms)
  show ?case
  proof (cases "\<forall>y \<in> set ms. isTool y")
    case True
    then have all: "takeWhile isTool ms = ms" "dropWhile isTool ms = []" by simp_all
    show ?thesis using 2 True by (auto simp: takeWhile_append dropWhile_append all)
  next
    case False
    then show ?thesis using 2 by (auto simp: takeWhile_append dropWhile_append)
  qed
qed simp

lemma turns_split: "\<not> isTool x \<Longrightarrow> turns (a @ x # b) = turns a @ turns (x # b)"
proof (induction a rule: turns.induct)
  case (2 m ms)
  show ?case
  proof (cases "\<forall>y \<in> set ms. isTool y")
    case True
    then have all: "takeWhile isTool ms = ms" "dropWhile isTool ms = []" by simp_all
    show ?thesis using 2 True by (auto simp: takeWhile_append dropWhile_append all)
  next
    case False
    then show ?thesis using 2 by (auto simp: takeWhile_append dropWhile_append)
  qed
qed simp

lemma Render_eq:
  "Render msgs tools th =
     renderSystem msgs tools @
     concat (map showTurn (turns (if hasSystem msgs then tl msgs else msgs))) @
     im_start ''assistant'' @
     (if th then [] else ''<think>'' @ nl @ nl @ ''</think>'' @ nl @ nl)"
  by (simp add: Render_def renderFrom_renderRest renderRest_turns drop_Suc Let_def)

lemma renderSystem_Cons:
  "renderSystem (m # a) tools = renderSystem (m # b) tools"
  "hasSystem (m # a) = hasSystem (m # b)"
  by (simp_all add: renderSystem_def hasSystem_def)

subsection \<open>The properties of \<open>Render\<close>\<close>

text \<open>
  C15: the prompt is the system block, one block per turn of the conversation and the
  generation header; a turn is a user message, an assistant message with its calls, or a maximal
  run of tool results, which share one user block.  The index look-back and look-ahead of the
  loop opens and closes each of these blocks exactly once.
\<close>

theorem Render_turns:
  "Render msgs tools th =
     renderSystem msgs tools @
     concat (map showTurn (turns (if hasSystem msgs then tl msgs else msgs))) @
     im_start ''assistant'' @
     (if th then [] else ''<think>'' @ nl @ nl @ ''</think>'' @ nl @ nl)"
  by (rule Render_eq)

text \<open>
  After the first message, a message whose role is not user, assistant or tool
  has no influence on the prompt; in particular the content of a later system message is lost.
\<close>

theorem Render_drops_other_roles:
  assumes "\<not> rendered_role (Role x)" "\<not> rendered_role (Role y)"
  shows "Render (m # a @ x # b) tools th = Render (m # a @ y # b) tools th"
proof -
  have "turns (m # a @ x # b) = turns (m # a @ y # b)"
    using turns_skip [of x "m # a" b] turns_skip [of y "m # a" b] assms by simp
  moreover have "turns (a @ x # b) = turns (a @ y # b)"
    using turns_skip [of x a b] turns_skip [of y a b] assms by simp
  ultimately show ?thesis
    using renderSystem_Cons(1) [of m "a @ x # b" tools "a @ y # b"]
      renderSystem_Cons(2) [of m "a @ x # b" "a @ y # b"] by (simp add: Render_eq)
qed

definition plainMessage :: "gostring \<Rightarrow> gostring \<Rightarrow> Message" where
  "plainMessage r c = \<lparr>Role = r, Content = c, ToolCalls = [], ToolCallID = []\<rparr>"

lemma Render_drops_other_roles_witness:
  "Render (plainMessage ''user'' ''hi'' # [] @ plainMessage ''system'' ''be brief'' # []) [] True =
   Render (plainMessage ''user'' ''hi'' # [] @ plainMessage ''developer'' [] # []) [] True"
  by (rule Render_drops_other_roles) (simp_all add: plainMessage_def)

text \<open>
  The content of a message is not delimited: a user message that contains the
  end marker and the header of a user turn gives the prompt of two user messages, so the prompt
  does not determine the conversation.
\<close>

theorem Render_not_injective:
  "Render (a @ plainMessage ''user'' (c @ im_end @ im_start ''user'' @ d) # b) tools th =
   Render (a @ plainMessage ''user'' c # plainMessage ''user'' d # b) tools th"
proof -
  let ?x = "plainMessage ''user'' (c @ im_end @ im_start ''user'' @ d)"
  let ?y = "plainMessage ''user'' c" and ?z = "plainMessage ''user'' d"
  have t: "concat (map showTurn (turns (a @ ?x # b))) = concat (map showTurn (turns (a @ ?y # ?z # b)))" for a
    using turns_split [of ?x a b] turns_split [of ?y a "?z # b"]
    by (simp add: plainMessage_def showTurn_def)
  show ?thesis
  proof (cases a)
    case Nil
    then show ?thesis
      using t [of "[]"] by (simp add: Render_eq renderSystem_def hasSystem_def plainMessage_def)
  next
    case (Cons m a')
    show ?thesis
      using t [of a] t [of a'] renderSystem_Cons(1) [of m "a' @ ?x # b" tools "a' @ ?y # ?z # b"]
        renderSystem_Cons(2) [of m "a' @ ?x # b" "a' @ ?y # ?z # b"]
      by (simp add: Cons Render_eq)
  qed
qed

end
