(* ===== verification/Float32.thy ===== *)
theory Float32
  imports Prelude
begin

section \<open>Go's conversion \<open>float32(x)\<close>\<close>

text \<open>
  A 64-bit float is its IEEE 754 bit pattern.  The conversion rounds to the nearest 32-bit float,
  ties to even, with subnormals below and infinity above the range.  The language leaves the
  payload of a converted NaN open; it is quieted here, and JSON has no NaN.
\<close>

type_synonym float64 = "64 word"
type_synonym float32 = "32 word"

text \<open>The magnitude of a finite pattern is \<open>mant x * 2 ^ pexp x div 2 ^ 1075\<close>.\<close>

definition expField :: "float64 \<Rightarrow> nat" where
  "expField x = unat x div 2 ^ 52 mod 2 ^ 11"

definition fracField :: "float64 \<Rightarrow> nat" where
  "fracField x = unat x mod 2 ^ 52"

definition mant :: "float64 \<Rightarrow> nat" where
  "mant x = (if expField x = 0 then fracField x else 2 ^ 52 + fracField x)"

definition pexp :: "float64 \<Rightarrow> nat" where
  "pexp x = max (expField x) 1"

text \<open>\<open>m / 2 ^ k\<close> rounded to the nearest integer, ties to even.\<close>

definition roundShift :: "nat \<Rightarrow> nat \<Rightarrow> nat" where
  "roundShift m k =
     (let q = m div 2 ^ k; r = m mod 2 ^ k in
      if 2 ^ k < 2 * r \<or> 2 * r = 2 ^ k \<and> odd q then q + 1 else q)"

definition infBits :: nat where
  "infBits = 255 * 2 ^ 23"

text \<open>
  Powers of two are counted from \<open>2 ^ - 1075\<close>: the mantissa of the double has the weight \<open>pexp x\<close>,
  the smallest single, \<open>2 ^ - 149\<close>, the weight 926.  For a normal double \<open>t\<close> is the weight of the
  last place kept: 29 places are dropped, more below the normal range of singles.  A double below
  the normal range of doubles is far below half the smallest single.
\<close>

definition magBits :: "float64 \<Rightarrow> nat" where
  "magBits x =
     (let t = max (pexp x + 29) 926 in
      min infBits ((t - 926) * 2 ^ 23 + roundShift (mant x) (t - pexp x)))"

definition float32_of :: "float64 \<Rightarrow> float32" where
  "float32_of x =
     (let sign = (if 2 ^ 63 \<le> unat x then 2 ^ 31 else 0) in
      if expField x = 2047 \<and> fracField x \<noteq> 0
      then word_of_nat (sign + infBits + 2 ^ 22 + fracField x div 2 ^ 29 mod 2 ^ 22)
      else if expField x = 2047 then word_of_nat (sign + infBits)
      else word_of_nat (sign + magBits x))"

text \<open>The bit pattern of the single-precision 1.0.\<close>

definition float32_one :: float32 where
  "float32_one = 0x3F800000"

lemma float32_samples:
  "float32_of 0 = 0" "float32_of 0x3FF0000000000000 = float32_one"
  "float32_of 0x3FE6666666666666 = 0x3F333333" "float32_of 0x7FEFFFFFFFFFFFFF = 0x7F800000"
  "float32_of 0x36A0000000000000 = 1" "float32_of 0x3690000000000000 = 0"
  "float32_of 0xBFB999999999999A = 0xBDCCCCCD"
  by (simp_all add: float32_of_def magBits_def mant_def pexp_def expField_def fracField_def roundShift_def
      infBits_def float32_one_def Let_def)

text \<open>A value that is a single already, with at most 24 significant bits, is kept.\<close>

lemma roundShift_exact: "roundShift (m * 2 ^ k) k = m"
  by (simp add: roundShift_def)

text \<open>A value between 0 and 1 stays between 0 and 1.\<close>

definition float64_one :: float64 where
  "float64_one = 0x3FF0000000000000"

lemma roundShift_bound: "m < 2 ^ (n + k) \<Longrightarrow> roundShift m k \<le> 2 ^ n"
proof -
  assume "m < 2 ^ (n + k)"
  then have "m div 2 ^ k < 2 ^ n" by (simp add: less_mult_imp_div_less power_add)
  then show ?thesis by (simp add: roundShift_def Let_def)
qed

lemma mant_less: "mant x < 2 ^ 53"
proof -
  have "fracField x < 2 ^ 52" by (simp add: fracField_def)
  then show ?thesis by (simp add: mant_def)
qed

lemma unit_fields:
  assumes "unat x \<le> unat float64_one"
  shows "expField x \<le> 1022 \<or> x = float64_one"
proof (rule disjCI)
  assume ne: "x \<noteq> float64_one"
  have "unat x \<noteq> unat float64_one" using ne by (simp add: word_eq_iff_unsigned [where ?'a = nat])
  then have "unat x < 1023 * 2 ^ 52" using assms by (simp add: float64_one_def)
  then have "unat x div 2 ^ 52 < 1023" by (rule less_mult_imp_div_less)
  then show "expField x \<le> 1022" by (simp add: expField_def)
qed

lemma float32_unit:
  assumes "unat x \<le> unat float64_one"
  shows "unat (float32_of x) \<le> unat float32_one"
proof (cases "x = float64_one")
  case True
  then show ?thesis using float32_samples(2) by (simp add: float64_one_def)
next
  case False
  then have e: "expField x \<le> 1022" using unit_fields [OF assms] by simp
  let ?k = "max (pexp x + 29) 926 - pexp x"
  have k: "29 \<le> ?k" and t: "max (pexp x + 29) 926 \<le> 1051" using e by (auto simp: pexp_def)
  have "mant x < 2 ^ (24 + ?k)"
  proof (rule less_le_trans [OF mant_less])
    show "(2 :: nat) ^ 53 \<le> 2 ^ (24 + ?k)" by (rule power_increasing) (use k in simp_all)
  qed
  then have "roundShift (mant x) ?k \<le> 2 ^ 24" by (rule roundShift_bound)
  moreover have "(max (pexp x + 29) 926 - 926) * 2 ^ 23 \<le> (125 * 2 ^ 23 :: nat)"
    using t by simp
  ultimately have "magBits x \<le> 125 * 2 ^ 23 + 2 ^ 24"
    unfolding magBits_def Let_def by linarith
  then have m: "magBits x \<le> 127 * 2 ^ 23" by simp
  have "unat x < 2 ^ 63" using assms by (simp add: float64_one_def)
  then have "float32_of x = word_of_nat (magBits x)"
    using e by (simp add: float32_of_def)
  moreover have "unat (word_of_nat (magBits x) :: float32) = magBits x"
    using m by (simp add: unsigned_of_nat take_bit_nat_eq_self)
  ultimately show ?thesis using m by (simp add: float32_one_def)
qed

end
