(* ===== verification/Generate.thy ===== *)
theory Generate
  imports EngineClient ChatStream ChatRender Float32
begin

section \<open>The text tier\<close>

text \<open>
  \<open>internal/engine/generate.go\<close> and the request and result types of
  \<open>internal/engine/types.go\<close>: \<open>resolveMaxTokens\<close>, \<open>buildRequest\<close>, \<open>Generate\<close> and
  \<open>Complete\<close>.  The callbacks \<open>onDelta\<close> become the list of their calls in order.  \<open>None\<close>
  as the whole result is a call that has not returned: the encoder loops, or \<open>Recv\<close> blocks.
\<close>

record request =
  rq_Messages :: "Message list"
  rq_Tools :: "ToolDef list"
  rq_EnableThinking :: bool
  rq_MaxTokens :: int
  rq_Temperature :: "float64 option"
  rq_TopP :: "float64 option"
  rq_IgnoreEOS :: bool
  rq_RawPrompt :: gostring
  rq_InputIDs :: "int list"

record result =
  r_Text :: gostring
  r_ToolCalls :: "ToolCall list"
  r_FinishReason :: gostring
  r_PromptTokens :: int
  r_CompletionTokens :: int

record GenerateRequest =
  InputIds :: "int32 list"
  MaxTokens :: int32
  Temperature :: float32
  TopP :: float32
  StopTokenIds :: "int32 list"

record generator =
  g_cm :: format
  g_tok :: tokenizer
  g_maxCtx :: int

definition NewGenerator :: "format \<Rightarrow> tokenizer \<Rightarrow> int \<Rightarrow> generator" where
  "NewGenerator cm tok maxCtx = \<lparr>g_cm = cm, g_tok = tok, g_maxCtx = maxCtx\<rparr>"

text \<open>
  What the tier calls that is not under \<open>src/\<close>: the \<open>Generate\<close> RPC.
\<close>

record runtime =
  rt_rpc :: "GenerateRequest \<Rightarrow> gostring + recv list"

subsection \<open>The request\<close>

definition resolveMaxTokens :: "generator \<Rightarrow> int \<Rightarrow> int \<Rightarrow> goerror + int" where
  "resolveMaxTokens g promptLen requested =
     (let room = g_maxCtx g - promptLen in
      if room < 1 then
        Inl (Wrapped ErrPromptTooLong (''prompt is '' @ itoa promptLen @
          '' tokens, context window is '' @ itoa (g_maxCtx g)))
      else if requested \<le> 0 \<or> room < requested then Inr room
      else Inr requested)"

definition promptIDs :: "generator \<Rightarrow> request \<Rightarrow> int list option" where
  "promptIDs g req =
     (if 0 < length (rq_InputIDs req) then Some (rq_InputIDs req)
      else if rq_RawPrompt req \<noteq> [] then Encode (g_tok g) (rq_RawPrompt req)
      else Encode (g_tok g)
        (Render (rq_Messages req) (rq_Tools req) (rq_EnableThinking req)))"

definition buildRequest :: "generator \<Rightarrow> request \<Rightarrow> (goerror + GenerateRequest) option" where
  "buildRequest g req =
     (case promptIDs g req of
        None \<Rightarrow> None
      | Some ids \<Rightarrow>
        (case resolveMaxTokens g (int (length ids)) (rq_MaxTokens req) of
           Inl e \<Rightarrow> Some (Inl e)
         | Inr maxTokens \<Rightarrow>
           let greq = \<lparr>InputIds = map to_int32 ids, MaxTokens = to_int32 maxTokens,
                 Temperature = 0, TopP = float32_one, StopTokenIds = []\<rparr>;
               greq = (if \<not> rq_IgnoreEOS req then greq\<lparr>StopTokenIds := StopTokenIDs (g_cm g)\<rparr> else greq);
               greq = (case rq_Temperature req of Some x \<Rightarrow> greq\<lparr>Temperature := float32_of x\<rparr> | None \<Rightarrow> greq);
               greq = (case rq_TopP req of Some x \<Rightarrow> greq\<lparr>TopP := float32_of x\<rparr> | None \<Rightarrow> greq) in
           Some (Inr greq)))"

subsection \<open>Generate\<close>

type_synonym delta = "gostring \<times> ToolCall option"

text \<open>The state the callback's closure captures: the result, the stream, the calls of \<open>onDelta\<close>.\<close>

definition onToken_chat ::
  "int32 \<Rightarrow> result \<times> stream \<times> delta list \<Rightarrow> result \<times> stream \<times> delta list" where
  "onToken_chat i = (\<lambda>(res, st, ds).
     let ((tx, tc), st) = Push st (of_int32 i);
         res = (if tx \<noteq> [] then res\<lparr>r_Text := r_Text res @ tx\<rparr> else res);
         res = (case tc of Some c \<Rightarrow> res\<lparr>r_ToolCalls := r_ToolCalls res @ [c]\<rparr> | None \<Rightarrow> res);
         ds = (if tx \<noteq> [] \<or> tc \<noteq> None then ds @ [(tx, tc)] else ds) in
     (res, st, ds))"

definition emptyResult :: result where
  "emptyResult = \<lparr>r_Text = [], r_ToolCalls = [], r_FinishReason = [], r_PromptTokens = 0,
                  r_CompletionTokens = 0\<rparr>"

text \<open>The calls made, and the outcome once the function has returned.\<close>

definition Generate ::
  "runtime \<Rightarrow> generator \<Rightarrow> request \<Rightarrow> delta list \<times> (goerror + result) option" where
  "Generate rt g req =
     (case buildRequest g req of
        None \<Rightarrow> ([], None)
      | Some (Inl e) \<Rightarrow> ([], Some (Inl e))
      | Some (Inr greq) \<Rightarrow>
        let ((res, st, ds), stats) =
              stream_rpc (rt_rpc rt greq) onToken_chat (emptyResult, NewStream (g_cm g), []) in
        (case stats of
           None \<Rightarrow> (ds, None)
         | Some (Inl e) \<Rightarrow> (ds, Some (Inl e))
         | Some (Inr s) \<Rightarrow>
           let (tl, st) = Flush st;
               (res, ds) = (if tl \<noteq> [] then (res\<lparr>r_Text := r_Text res @ tl\<rparr>, ds @ [(tl, None)])
                            else (res, ds));
               res = res\<lparr>r_FinishReason := s_FinishReason s, r_PromptTokens := s_PromptTokens s,
                         r_CompletionTokens := s_CompletionTokens s\<rparr>;
               res = (if 0 < length (r_ToolCalls res) then res\<lparr>r_FinishReason := ''tool_calls''\<rparr>
                      else res) in
           (ds, Some (Inr res))))"

subsection \<open>Complete\<close>

definition onToken_text ::
  "generator \<Rightarrow> int32 \<Rightarrow> result \<times> gostring \<times> gostring list \<Rightarrow> result \<times> gostring \<times> gostring list" where
  "onToken_text g i = (\<lambda>(res, buf, ds).
     let buf = buf @ Decode (g_tok g) [of_int32 i];
         (tx, buf) = takeRunes buf in
     if tx \<noteq> [] then (res\<lparr>r_Text := r_Text res @ tx\<rparr>, buf, ds @ [tx]) else (res, buf, ds))"

definition Complete ::
  "runtime \<Rightarrow> generator \<Rightarrow> request \<Rightarrow> gostring list \<times> (goerror + result) option" where
  "Complete rt g req =
     (case buildRequest g req of
        None \<Rightarrow> ([], None)
      | Some (Inl e) \<Rightarrow> ([], Some (Inl e))
      | Some (Inr greq) \<Rightarrow>
        let ((res, buf, ds), stats) =
              stream_rpc (rt_rpc rt greq) (onToken_text g) (emptyResult, [], []) in
        (case stats of
           None \<Rightarrow> (ds, None)
         | Some (Inl e) \<Rightarrow> (ds, Some (Inl e))
         | Some (Inr s) \<Rightarrow>
           let (res, ds) = (if 0 < length buf then (res\<lparr>r_Text := r_Text res @ buf\<rparr>, ds @ [buf])
                            else (res, ds));
               res = res\<lparr>r_FinishReason := s_FinishReason s, r_PromptTokens := s_PromptTokens s,
                         r_CompletionTokens := s_CompletionTokens s\<rparr> in
           (ds, Some (Inr res))))"

subsection \<open>The loops in terms of the whole token list\<close>

definition emitted :: "delta list \<Rightarrow> delta list" where
  "emitted rs = filter (\<lambda>(tx, tc). tx \<noteq> [] \<or> tc \<noteq> None) rs"

lemma emitted_simps [simp]:
  "emitted [] = []"
  "emitted ((tx, tc) # rs) = (if tx \<noteq> [] \<or> tc \<noteq> None then [(tx, tc)] else []) @ emitted rs"
  by (simp_all add: emitted_def)

lemma emitted_set: "d \<in> set (emitted rs) \<Longrightarrow> d \<in> set rs \<and> (fst d \<noteq> [] \<or> snd d \<noteq> None)"
  by (auto simp: emitted_def)

lemma fold_onToken_chat:
  "fold onToken_chat ws (res, st, ds) =
     (let (rs, st') = pushes st (map of_int32 ws) in
      (res\<lparr>r_Text := r_Text res @ concat (map fst rs),
           r_ToolCalls := r_ToolCalls res @ List.map_filter snd rs\<rparr>, st', ds @ emitted rs))"
proof (induction ws arbitrary: res st ds)
  case (Cons w ws)
  obtain tx tc st1 where p: "Push st (of_int32 w) = ((tx, tc), st1)"
    by (metis prod.exhaust)
  have "onToken_chat w (res, st, ds) =
      (let res = (if tx \<noteq> [] then res\<lparr>r_Text := r_Text res @ tx\<rparr> else res);
           res = (case tc of Some c \<Rightarrow> res\<lparr>r_ToolCalls := r_ToolCalls res @ [c]\<rparr> | None \<Rightarrow> res) in
       (res, st1, if tx \<noteq> [] \<or> tc \<noteq> None then ds @ [(tx, tc)] else ds))"
    by (simp add: onToken_chat_def p Let_def)
  then show ?case
    by (cases tc) (simp_all add: p Cons Let_def case_prod_unfold map_filter_simps)
qed (simp add: map_filter_simps)

lemma concat_emitted: "concat (map fst (emitted rs)) = concat (map fst rs)"
  by (induction rs) auto

lemma calls_emitted: "List.map_filter snd (emitted rs) = List.map_filter snd rs"
  by (induction rs) (auto simp: map_filter_simps split: option.splits)

lemma fold_onToken_text:
  "fold (onToken_text g) ws (res, buf, ds) =
     (let (ts, left) = feed takeRunes buf (map (\<lambda>w. Decode (g_tok g) [of_int32 w]) ws) in
      (res\<lparr>r_Text := r_Text res @ concat ts\<rparr>, left, ds @ filter (\<lambda>tx. tx \<noteq> []) ts))"
proof (induction ws arbitrary: res buf ds)
  case (Cons w ws)
  obtain tx b where p: "takeRunes (buf @ Decode (g_tok g) [of_int32 w]) = (tx, b)" by fastforce
  have "onToken_text g w (res, buf, ds) =
      (if tx \<noteq> [] then (res\<lparr>r_Text := r_Text res @ tx\<rparr>, b, ds @ [tx]) else (res, b, ds))"
    by (simp add: onToken_text_def p Let_def)
  then show ?case by (simp add: p Cons Let_def case_prod_unfold)
qed simp

lemma concat_nonempty: "concat (filter (\<lambda>tx. tx \<noteq> []) ts) = concat ts"
  by (induction ts) auto

subsection \<open>What a completion returns\<close>

text \<open>The results as functions of the events the engine sent.\<close>

definition chatResult :: "format \<Rightarrow> recv list \<Rightarrow> Stats \<Rightarrow> result" where
  "chatResult cm evs s =
     (let ids = map of_int32 (tokensOf evs);
          calls = numberCalls 0 (List.map_filter (parseBody (fm_tok cm))
                    (callBodies cm False [] ids)) in
      \<lparr>r_Text = Decode (fm_tok cm) (visible cm False ids),
       r_ToolCalls = calls,
       r_FinishReason = (if calls \<noteq> [] then ''tool_calls'' else s_FinishReason s),
       r_PromptTokens = s_PromptTokens s, r_CompletionTokens = s_CompletionTokens s\<rparr>)"

definition textResult :: "tokenizer \<Rightarrow> recv list \<Rightarrow> Stats \<Rightarrow> result" where
  "textResult tok evs s =
     \<lparr>r_Text = Decode tok (map of_int32 (tokensOf evs)), r_ToolCalls = [],
      r_FinishReason = s_FinishReason s, r_PromptTokens = s_PromptTokens s,
      r_CompletionTokens = s_CompletionTokens s\<rparr>"

text \<open>How a call ends, given how it computes its result from the events.\<close>

definition ends_with ::
  "runtime \<Rightarrow> (goerror + GenerateRequest) option \<Rightarrow> (recv list \<Rightarrow> Stats \<Rightarrow> result) \<Rightarrow>
   (goerror + result) option" where
  "ends_with rt built f =
     (case built of
        None \<Rightarrow> None
      | Some (Inl e) \<Rightarrow> Some (Inl e)
      | Some (Inr greq) \<Rightarrow>
        (case rt_rpc rt greq of
           Inl e \<Rightarrow> Some (Inl (Plain e))
         | Inr evs \<Rightarrow>
           (case endOf evs of
              None \<Rightarrow> None
            | Some (Inl e) \<Rightarrow> Some (Inl e)
            | Some (Inr s) \<Rightarrow> Some (Inr (f evs s)))))"

text \<open>The pushes of one response, from the fresh stream.\<close>

definition response :: "format \<Rightarrow> recv list \<Rightarrow> delta list \<times> stream" where
  "response cm evs = pushes (NewStream cm) (map of_int32 (tokensOf evs))"

lemma response_text:
  "concat (map fst (fst (response cm evs))) @ pending (snd (response cm evs)) =
     Decode (fm_tok cm) (visible cm False (map of_int32 (tokensOf evs)))"
proof -
  have "\<not> FullRune (pending (NewStream cm))" by (simp add: NewStream_def)
  from pushes_drain [OF this, of "map of_int32 (tokensOf evs)"]
  show ?thesis
    using cml.drain_split [of "NewStream cm" "streamText (NewStream cm) (map of_int32 (tokensOf evs))"]
    by (auto simp: response_def streamText_def NewStream_def prod_eq_iff)
qed

lemma response_held: "\<not> FullRune (pending (snd (response cm evs)))"
proof -
  have "\<not> FullRune (pending (NewStream cm))" by (simp add: NewStream_def)
  from pushes_drain [OF this, of "map of_int32 (tokensOf evs)"]
  show ?thesis using cml.drain_held unfolding response_def prod_eq_iff by simp
qed

lemma response_calls:
  "List.map_filter snd (fst (response cm evs)) =
     numberCalls 0 (List.map_filter (parseBody (fm_tok cm))
       (callBodies cm False [] (map of_int32 (tokensOf evs))))"
  by (simp add: response_def pushes_calls) (simp add: NewStream_def)

lemma response_valid:
  assumes "ValidString (Decode (fm_tok cm) (visible cm False (map of_int32 (tokensOf evs))))"
  shows "list_all ValidString (map fst (fst (response cm evs)))"
    and "pending (snd (response cm evs)) = []"
proof -
  let ?w = "Decode (fm_tok cm) (visible cm False (map of_int32 (tokensOf evs)))"
  have w: "streamText (NewStream cm) (map of_int32 (tokensOf evs)) = ?w"
    by (simp add: streamText_def NewStream_def)
  show "list_all ValidString (map fst (fst (response cm evs)))"
    unfolding response_def by (rule pushes_valid) (simp add: w assms)
  have nf: "\<not> FullRune (pending (NewStream cm))" by (simp add: NewStream_def)
  have "pending (snd (response cm evs)) = snd (drainPending (NewStream cm) ?w)"
    using pushes_drain [OF nf, of "map of_int32 (tokensOf evs)"]
    unfolding response_def w prod_eq_iff by simp
  moreover have "ValidString (snd (drainPending (NewStream cm) ?w))"
    using cml.drain_valid [of ?w "[]" "NewStream cm"] assms by simp
  ultimately have "ValidString (pending (snd (response cm evs)))" by simp
  then show "pending (snd (response cm evs)) = []"
    using response_held not_FullRune_invalid by blast
qed

text \<open>The deltas of a chat completion: the pushes' and, if it succeeded, the flush.\<close>

definition chatDeltas :: "format \<Rightarrow> recv list \<Rightarrow> delta list" where
  "chatDeltas cm evs =
     (let (rs, st) = response cm evs;
          ended = (case endOf evs of Some (Inr _) \<Rightarrow> True | _ \<Rightarrow> False) in
      emitted rs @ (if ended \<and> pending st \<noteq> [] then [(pending st, None)] else []))"

lemma Generate_run:
  assumes "buildRequest g req = Some (Inr greq)" "rt_rpc rt greq = Inr evs"
  shows "Generate rt g req =
    (chatDeltas (g_cm g) evs,
     map_option (map_sum (\<lambda>e. e) (\<lambda>s. chatResult (g_cm g) evs s)) (endOf evs))"
proof -
  obtain rs st where r: "response (g_cm g) evs = (rs, st)" by fastforce
  have run: "stream_rpc (rt_rpc rt greq) onToken_chat (emptyResult, NewStream (g_cm g), []) =
      ((\<lparr>r_Text = concat (map fst rs), r_ToolCalls = List.map_filter snd rs, r_FinishReason = [],
         r_PromptTokens = 0, r_CompletionTokens = 0\<rparr>, st, emitted rs),
       endOf evs)"
    using r by (simp add: stream_rpc_eq assms(2) fold_onToken_chat response_def emptyResult_def)
  have whole: "concat (map fst rs) @ pending st =
      Decode (fm_tok (g_cm g)) (visible (g_cm g) False (map of_int32 (tokensOf evs)))"
    using response_text [of "g_cm g" evs] r by simp
  have calls: "numberCalls 0 (List.map_filter (parseBody (fm_tok (g_cm g)))
       (callBodies (g_cm g) False [] (map of_int32 (tokensOf evs)))) = List.map_filter snd rs"
    using response_calls [of "g_cm g" evs] r by simp
  show ?thesis
  proof (cases "endOf evs")
    case None
    then show ?thesis by (simp add: Generate_def assms(1) run chatDeltas_def r)
  next
    case (Some o')
    show ?thesis
    proof (cases o')
      case (Inl e)
      then show ?thesis using Some by (simp add: Generate_def assms(1) run chatDeltas_def r)
    next
      case (Inr s)
      then show ?thesis
        using Some whole [symmetric]
        by (simp add: Generate_def assms(1) run chatDeltas_def r chatResult_def Let_def calls Flush_def)
    qed
  qed
qed

lemma Generate_outcome:
  "snd (Generate rt g req) = ends_with rt (buildRequest g req) (chatResult (g_cm g))"
proof (cases "buildRequest g req")
  case None
  then show ?thesis by (simp add: Generate_def ends_with_def)
next
  case (Some b)
  show ?thesis
  proof (cases b)
    case (Inl e)
    then show ?thesis using Some by (simp add: Generate_def ends_with_def)
  next
    case (Inr greq)
    show ?thesis
    proof (cases "rt_rpc rt greq")
      case (Inl e)
      then show ?thesis using Some Inr
        by (simp add: Generate_def ends_with_def stream_rpc_eq)
    next
      case (Inr evs)
      then show ?thesis using Some \<open>b = Inr greq\<close> Generate_run [of g req greq rt evs]
        by (auto simp: ends_with_def split: option.split sum.split)
    qed
  qed
qed

lemma ends_with_Inr:
  assumes "ends_with rt b f = Some (Inr res)"
  obtains greq evs s where "b = Some (Inr greq)" "rt_rpc rt greq = Inr evs"
    "endOf evs = Some (Inr s)" "res = f evs s"
  using assms by (auto simp: ends_with_def split: option.splits sum.splits)

lemma Generate_success:
  assumes "snd (Generate rt g req) = Some (Inr res)"
  obtains greq evs s where "buildRequest g req = Some (Inr greq)" "rt_rpc rt greq = Inr evs"
    "endOf evs = Some (Inr s)" "res = chatResult (g_cm g) evs s"
    "fst (Generate rt g req) = chatDeltas (g_cm g) evs"
proof -
  from assms have "ends_with rt (buildRequest g req) (chatResult (g_cm g)) = Some (Inr res)"
    by (simp add: Generate_outcome)
  then obtain greq evs s where *: "buildRequest g req = Some (Inr greq)" "rt_rpc rt greq = Inr evs"
    "endOf evs = Some (Inr s)" "res = chatResult (g_cm g) evs s" by (rule ends_with_Inr)
  then show ?thesis using that [OF *] Generate_run [OF *(1,2)] by simp
qed

lemma chatDeltas_result:
  assumes "endOf evs = Some (Inr s)"
  shows "concat (map fst (chatDeltas cm evs)) = r_Text (chatResult cm evs s)"
    and "List.map_filter snd (chatDeltas cm evs) = r_ToolCalls (chatResult cm evs s)"
proof -
  show "concat (map fst (chatDeltas cm evs)) = r_Text (chatResult cm evs s)"
    using assms response_text [of cm evs, symmetric]
    by (simp add: chatDeltas_def chatResult_def Let_def case_prod_unfold concat_emitted)
  show "List.map_filter snd (chatDeltas cm evs) = r_ToolCalls (chatResult cm evs s)"
    using assms response_calls [of cm evs]
    by (simp add: chatDeltas_def chatResult_def Let_def case_prod_unfold calls_emitted map_filter_simps)
qed

lemma chatDeltas_nonempty: "list_all (\<lambda>(tx, tc). tx \<noteq> [] \<or> tc \<noteq> None) (chatDeltas cm evs)"
  by (auto simp: chatDeltas_def list_all_iff case_prod_unfold Let_def dest!: emitted_set)

lemma chatDeltas_valid:
  assumes "ValidString (Decode (fm_tok cm) (visible cm False (map of_int32 (tokensOf evs))))"
  shows "list_all ValidString (map fst (chatDeltas cm evs))"
  using response_valid [OF assms]
  by (auto simp: chatDeltas_def list_all_iff case_prod_unfold Let_def dest!: emitted_set)

text \<open>The raw completion.\<close>

definition textDeltas :: "tokenizer \<Rightarrow> recv list \<Rightarrow> gostring list" where
  "textDeltas tok evs =
     (let (ts, left) = feed takeRunes [] (map (\<lambda>w. Decode tok [of_int32 w]) (tokensOf evs));
          ended = (case endOf evs of Some (Inr _) \<Rightarrow> True | _ \<Rightarrow> False) in
      filter (\<lambda>tx. tx \<noteq> []) ts @ (if ended \<and> left \<noteq> [] then [left] else []))"

lemma Decode_chunks: "concat (map (\<lambda>w. Decode tok [of_int32 w]) ws) = Decode tok (map of_int32 ws)"
  using tok.decode_tokenwise [of tok "map of_int32 ws"] by (simp add: comp_def)

lemma Complete_run:
  assumes "buildRequest g req = Some (Inr greq)" "rt_rpc rt greq = Inr evs"
  shows "Complete rt g req =
    (textDeltas (g_tok g) evs,
     map_option (map_sum (\<lambda>e. e) (\<lambda>s. textResult (g_tok g) evs s)) (endOf evs))"
proof -
  obtain ts left where r:
    "feed takeRunes [] (map (\<lambda>w. Decode (g_tok g) [of_int32 w]) (tokensOf evs)) = (ts, left)" by fastforce
  have run: "stream_rpc (rt_rpc rt greq) (onToken_text g) (emptyResult, [], []) =
      ((\<lparr>r_Text = concat ts, r_ToolCalls = [], r_FinishReason = [], r_PromptTokens = 0,
         r_CompletionTokens = 0\<rparr>, left, filter (\<lambda>tx. tx \<noteq> []) ts), endOf evs)"
    using r by (simp add: stream_rpc_eq assms(2) fold_onToken_text emptyResult_def)
  have whole: "concat ts @ left = Decode (g_tok g) (map of_int32 (tokensOf evs))"
    using eng.feed_lossless [of "[]" "map (\<lambda>w. Decode (g_tok g) [of_int32 w]) (tokensOf evs)"] r
    by (simp add: Decode_chunks)
  show ?thesis
  proof (cases "endOf evs")
    case None
    then show ?thesis by (simp add: Complete_def assms(1) run textDeltas_def r)
  next
    case (Some o')
    show ?thesis
    proof (cases o')
      case (Inl e)
      then show ?thesis using Some by (simp add: Complete_def assms(1) run textDeltas_def r)
    next
      case (Inr s)
      then show ?thesis
        using Some whole [symmetric]
        by (simp add: Complete_def assms(1) run textDeltas_def r textResult_def Let_def)
    qed
  qed
qed

lemma Complete_outcome:
  "snd (Complete rt g req) = ends_with rt (buildRequest g req) (textResult (g_tok g))"
proof (cases "buildRequest g req")
  case None
  then show ?thesis by (simp add: Complete_def ends_with_def)
next
  case (Some b)
  show ?thesis
  proof (cases b)
    case (Inl e)
    then show ?thesis using Some by (simp add: Complete_def ends_with_def)
  next
    case (Inr greq)
    show ?thesis
    proof (cases "rt_rpc rt greq")
      case (Inl e)
      then show ?thesis using Some Inr
        by (simp add: Complete_def ends_with_def stream_rpc_eq)
    next
      case (Inr evs)
      then show ?thesis using Some \<open>b = Inr greq\<close> Complete_run [of g req greq rt evs]
        by (auto simp: ends_with_def split: option.split sum.split)
    qed
  qed
qed

lemma Complete_success:
  assumes "snd (Complete rt g req) = Some (Inr res)"
  obtains greq evs s where "buildRequest g req = Some (Inr greq)" "rt_rpc rt greq = Inr evs"
    "endOf evs = Some (Inr s)" "res = textResult (g_tok g) evs s"
    "fst (Complete rt g req) = textDeltas (g_tok g) evs"
proof -
  from assms have "ends_with rt (buildRequest g req) (textResult (g_tok g)) = Some (Inr res)"
    by (simp add: Complete_outcome)
  then obtain greq evs s where *: "buildRequest g req = Some (Inr greq)" "rt_rpc rt greq = Inr evs"
    "endOf evs = Some (Inr s)" "res = textResult (g_tok g) evs s" by (rule ends_with_Inr)
  then show ?thesis using that [OF *] Complete_run [OF *(1,2)] by simp
qed

lemma textDeltas_result:
  assumes "endOf evs = Some (Inr s)"
  shows "concat (textDeltas tok evs) = r_Text (textResult tok evs s)"
  using assms eng.feed_lossless [of "[]" "map (\<lambda>w. Decode tok [of_int32 w]) (tokensOf evs)", symmetric]
  by (simp add: textDeltas_def textResult_def case_prod_unfold Let_def concat_nonempty Decode_chunks)

lemma textDeltas_valid:
  assumes "ValidString (Decode tok (map of_int32 (tokensOf evs)))"
  shows "list_all ValidString (textDeltas tok evs)"
  using eng.feed_valid_flush [of "map (\<lambda>w. Decode tok [of_int32 w]) (tokensOf evs)"] assms
  by (auto simp: textDeltas_def case_prod_unfold Let_def Decode_chunks list_all_iff)

subsection \<open>The length policy\<close>

lemma resolveMaxTokens_Inr:
  "resolveMaxTokens g n m = Inr k \<longleftrightarrow>
     n < g_maxCtx g \<and> k = (if m \<le> 0 then g_maxCtx g - n else min m (g_maxCtx g - n))"
  by (auto simp: resolveMaxTokens_def Let_def)

lemma resolveMaxTokens_Inl:
  "(\<exists>e. resolveMaxTokens g n m = Inl e) \<longleftrightarrow> g_maxCtx g \<le> n"
  by (auto simp: resolveMaxTokens_def Let_def)

lemma buildRequest_Inr:
  assumes "buildRequest g req = Some (Inr greq)"
  obtains ids k where "promptIDs g req = Some ids"
    "resolveMaxTokens g (int (length ids)) (rq_MaxTokens req) = Inr k"
    "InputIds greq = map to_int32 ids" "MaxTokens greq = to_int32 k"
    "StopTokenIds greq = (if rq_IgnoreEOS req then [] else StopTokenIDs (g_cm g))"
    "Temperature greq = (case rq_Temperature req of Some x \<Rightarrow> float32_of x | None \<Rightarrow> 0)"
    "TopP greq = (case rq_TopP req of Some x \<Rightarrow> float32_of x | None \<Rightarrow> float32_one)"
  using assms by (auto simp: buildRequest_def Let_def split: option.splits sum.splits if_splits)

lemma resolve_budget:
  assumes "resolveMaxTokens g n m = Inr k" "0 \<le> n"
  shows "1 \<le> k \<and> n + k \<le> g_maxCtx g \<and> (0 < m \<longrightarrow> k \<le> m)"
  using assms by (auto simp: resolveMaxTokens_Inr split: if_splits)

subsection \<open>What a completion promises its callers\<close>

text \<open>
  The contract the HTTP handlers and the chat loop rely on, for both kinds of completion: the
  outcome is a function of the events, the texts handed to the callback add up to the result's
  text and never cut a rune of it, and a refused request reaches neither callback nor engine.
\<close>

locale completion_source =
  fixes run :: "runtime \<Rightarrow> generator \<Rightarrow> request \<Rightarrow> 'd list \<times> (goerror + result) option"
    and delta_text :: "'d \<Rightarrow> gostring"
    and spec :: "generator \<Rightarrow> recv list \<Rightarrow> Stats \<Rightarrow> result"
  assumes run_outcome: "snd (run rt g req) = ends_with rt (buildRequest g req) (spec g)"
    and run_text: "snd (run rt g req) = Some (Inr res) \<Longrightarrow>
      concat (map delta_text (fst (run rt g req))) = r_Text res"
    and run_valid: "snd (run rt g req) = Some (Inr res) \<Longrightarrow> ValidString (r_Text res) \<Longrightarrow>
      list_all ValidString (map delta_text (fst (run rt g req)))"
    and run_refused: "buildRequest g req = Some (Inl e) \<Longrightarrow> run rt g req = ([], Some (Inl e))"
begin

lemma run_source:
  assumes "snd (run rt g req) = Some (Inr res)"
  obtains greq evs s where "buildRequest g req = Some (Inr greq)" "rt_rpc rt greq = Inr evs"
    "endOf evs = Some (Inr s)" "res = spec g evs s"
  using assms unfolding run_outcome by (rule ends_with_Inr)

lemma run_engine_error:
  "buildRequest g req = Some (Inr greq) \<Longrightarrow> rt_rpc rt greq = Inr evs \<Longrightarrow>
   endOf evs = Some (Inl e) \<Longrightarrow> snd (run rt g req) = Some (Inl e)"
  by (simp add: run_outcome ends_with_def)

lemma run_too_long:
  assumes "promptIDs g req = Some ids" "g_maxCtx g \<le> int (length ids)"
  shows "\<exists>e. buildRequest g req = Some (Inl e) \<and> errIs e ErrPromptTooLong \<and>
    run rt g req = ([], Some (Inl e))"
proof -
  obtain e where e: "resolveMaxTokens g (int (length ids)) (rq_MaxTokens req) = Inl e"
    using assms(2) resolveMaxTokens_Inl by blast
  then have "errIs e ErrPromptTooLong"
    by (auto simp: resolveMaxTokens_def Let_def errIs_def split: if_splits)
  moreover have b: "buildRequest g req = Some (Inl e)" using assms(1) e by (simp add: buildRequest_def)
  ultimately show ?thesis using run_refused [OF b] by blast
qed

lemma run_deltas_valid:
  "run rt g req = (ds, Some (Inr res)) \<Longrightarrow> ValidString (r_Text res) \<Longrightarrow>
   concat (map delta_text ds) = r_Text res \<and> list_all ValidString (map delta_text ds)"
  using run_text [of rt g req res] run_valid [of rt g req res] by simp

end

interpretation chat: completion_source Generate fst "\<lambda>g. chatResult (g_cm g)"
proof
  fix rt g req res e
  show "snd (Generate rt g req) = ends_with rt (buildRequest g req) (chatResult (g_cm g))"
    by (rule Generate_outcome)
  show "buildRequest g req = Some (Inl e) \<Longrightarrow> Generate rt g req = ([], Some (Inl e))"
    by (simp add: Generate_def)
  assume "snd (Generate rt g req) = Some (Inr res)"
  then obtain evs s where *: "endOf evs = Some (Inr s)" "res = chatResult (g_cm g) evs s"
    "fst (Generate rt g req) = chatDeltas (g_cm g) evs" by (rule Generate_success)
  then show "concat (map fst (fst (Generate rt g req))) = r_Text res"
    by (simp only: chatDeltas_result)
  assume "ValidString (r_Text res)"
  then show "list_all ValidString (map fst (fst (Generate rt g req)))"
    unfolding *(2,3) by (intro chatDeltas_valid) (simp add: chatResult_def Let_def)
qed

interpretation raw: completion_source Complete "\<lambda>tx. tx" "\<lambda>g. textResult (g_tok g)"
proof
  fix rt g req res e
  show "snd (Complete rt g req) = ends_with rt (buildRequest g req) (textResult (g_tok g))"
    by (rule Complete_outcome)
  show "buildRequest g req = Some (Inl e) \<Longrightarrow> Complete rt g req = ([], Some (Inl e))"
    by (simp add: Complete_def)
  assume "snd (Complete rt g req) = Some (Inr res)"
  then obtain evs s where *: "endOf evs = Some (Inr s)" "res = textResult (g_tok g) evs s"
    "fst (Complete rt g req) = textDeltas (g_tok g) evs" by (rule Complete_success)
  then show "concat (map (\<lambda>tx. tx) (fst (Complete rt g req))) = r_Text res"
    by (simp add: textDeltas_result)
  assume "ValidString (r_Text res)"
  then show "list_all ValidString (map (\<lambda>tx. tx) (fst (Complete rt g req)))"
    unfolding *(2,3) by (simp add: textDeltas_valid textResult_def)
qed

subsection \<open>A sample engine\<close>

text \<open>A three-token prompt, a rune split over two tokens, and a tool call.\<close>

definition sampleGen :: generator where
  "sampleGen = \<lparr>g_cm = sampleFormat, g_tok = fm_tok sampleFormat, g_maxCtx = 100\<rparr>"

definition sampleEvents :: "recv list" where
  "sampleEvents = [TokenId 0, TokenId 1, TokenId 2, TokenId 3, TokenId 5, TokenId 4,
     Done \<lparr>d_FinishReason = ''stop'', d_PromptTokens = 3, d_CompletionTokens = 6\<rparr>]"

definition sampleRt :: runtime where
  "sampleRt = \<lparr>rt_rpc = (\<lambda>_. Inr sampleEvents)\<rparr>"

definition sampleReq :: request where
  "sampleReq =
     \<lparr>rq_Messages = [], rq_Tools = [], rq_EnableThinking = False, rq_MaxTokens = 0,
      rq_Temperature = None, rq_TopP = None, rq_IgnoreEOS = False, rq_RawPrompt = [],
      rq_InputIDs = [7, 8, 9]\<rparr>"

definition sampleGreq :: GenerateRequest where
  "sampleGreq = \<lparr>InputIds = [7, 8, 9], MaxTokens = 97, Temperature = 0, TopP = float32_one,
     StopTokenIds = [9]\<rparr>"

definition sampleStats :: Stats where
  "sampleStats = \<lparr>s_FinishReason = ''stop'', s_PromptTokens = 3, s_CompletionTokens = 6\<rparr>"

lemma sample_build: "buildRequest sampleGen sampleReq = Some (Inr sampleGreq)"
  by (simp add: buildRequest_def promptIDs_def sampleReq_def resolveMaxTokens_def sampleGen_def
      sampleGreq_def sampleFormat_def StopTokenIDs_def to_int32_def Let_def)

lemma sample_end: "endOf sampleEvents = Some (Inr sampleStats)"
  by code_simp

lemma sample_Generate:
  "snd (Generate sampleRt sampleGen sampleReq) = Some (Inr (chatResult sampleFormat sampleEvents sampleStats))"
  using Generate_run [OF sample_build, of sampleRt sampleEvents]
  by (simp add: sampleRt_def sample_end) (simp add: sampleGen_def)

definition plainEvents :: "recv list" where
  "plainEvents = [TokenId 0, TokenId 1, TokenId 2,
     Done \<lparr>d_FinishReason = ''stop'', d_PromptTokens = 3, d_CompletionTokens = 6\<rparr>]"

definition plainRt :: runtime where
  "plainRt = sampleRt\<lparr>rt_rpc := (\<lambda>_. Inr plainEvents)\<rparr>"

lemma plain_end: "endOf plainEvents = Some (Inr sampleStats)"
  by code_simp

lemma sample_Complete:
  "snd (Complete plainRt sampleGen sampleReq) = Some (Inr (textResult (fm_tok sampleFormat) plainEvents sampleStats))"
  using Complete_run [OF sample_build, of plainRt plainEvents]
  by (simp add: plainRt_def plain_end) (simp add: sampleGen_def)

lemma plain_text:
  "r_Text (textResult (fm_tok sampleFormat) plainEvents sampleStats) = [CHR ''h'', CHR 0xE4, CHR 0xB8, CHR 0xAD]"
  by code_simp

lemma sample_text:
  "r_Text (chatResult sampleFormat sampleEvents sampleStats) = [CHR ''h'', CHR 0xE4, CHR 0xB8, CHR 0xAD]"
  by code_simp

lemma sample_valid: "ValidString [CHR ''h'', CHR 0xE4, CHR 0xB8, CHR 0xAD]"
proof -
  have "DecodeRune [CHR ''h'', CHR 0xE4, CHR 0xB8, CHR 0xAD] = (104, 1)"
    "DecodeRune [CHR 0xE4, CHR 0xB8, CHR 0xAD] = (20013, 3)" by code_simp+
  then show ?thesis by (simp add: ValidString_step RuneError_def)
qed

subsection \<open>The properties of the text tier\<close>

text \<open>
  C9: \<open>Generate\<close> is determined by the request and the engine's events: it fails
  when the request cannot be built, when the RPC cannot be opened, or with the first terminal
  event if that is an error; otherwise its text is the decoding of the visible tokens before that
  event, its calls the numbered calls that parse, its usage the event's, and its finish reason
  \<open>tool_calls\<close> exactly when there is a call.
\<close>

theorem Generate_refines:
  "snd (Generate rt g req) = ends_with rt (buildRequest g req) (chatResult (g_cm g))"
  by (rule chat.run_outcome)

text \<open>
  C19: the deltas a successful \<open>Generate\<close> passes to its callback add up to its
  result: their texts concatenate to the result's text, their calls are the result's calls in
  order, and none is empty.
\<close>

theorem Generate_deltas:
  assumes "snd (Generate rt g req) = Some (Inr res)"
  shows "concat (map fst (fst (Generate rt g req))) = r_Text res \<and>
     List.map_filter snd (fst (Generate rt g req)) = r_ToolCalls res \<and>
     list_all (\<lambda>(tx, tc). tx \<noteq> [] \<or> tc \<noteq> None) (fst (Generate rt g req))"
proof -
  from assms obtain evs s where "endOf evs = Some (Inr s)" "res = chatResult (g_cm g) evs s"
    "fst (Generate rt g req) = chatDeltas (g_cm g) evs" by (rule Generate_success)
  then show ?thesis by (simp only: chatDeltas_result chatDeltas_nonempty)
qed

lemma Generate_deltas_witness:
  "concat (map fst (fst (Generate sampleRt sampleGen sampleReq))) =
     r_Text (chatResult sampleFormat sampleEvents sampleStats) \<and>
   List.map_filter snd (fst (Generate sampleRt sampleGen sampleReq)) =
     r_ToolCalls (chatResult sampleFormat sampleEvents sampleStats) \<and>
   list_all (\<lambda>(tx, tc). tx \<noteq> [] \<or> tc \<noteq> None) (fst (Generate sampleRt sampleGen sampleReq))"
  by (rule Generate_deltas [OF sample_Generate])

text \<open>
  C11: if the text of a completion is valid UTF-8, so is every delta, although a rune
  may be split over several tokens.
\<close>

theorem Generate_deltas_utf8:
  assumes "snd (Generate rt g req) = Some (Inr res)" "ValidString (r_Text res)"
  shows "list_all ValidString (map fst (fst (Generate rt g req)))"
  by (rule chat.run_valid [OF assms])

lemma Generate_deltas_utf8_witness:
  "list_all ValidString (map fst (fst (Generate sampleRt sampleGen sampleReq)))"
proof (rule Generate_deltas_utf8 [OF sample_Generate])
  show "ValidString (r_Text (chatResult sampleFormat sampleEvents sampleStats))"
    unfolding sample_text by (rule sample_valid)
qed

text \<open>
  C20: \<open>Complete\<close> is determined in the same way, and its text is the decoding of
  all tokens before the terminal event, special ones included.
\<close>

theorem Complete_refines:
  "snd (Complete rt g req) = ends_with rt (buildRequest g req) (textResult (g_tok g))"
  by (rule raw.run_outcome)



text \<open>
  C16: the token budget sent to the engine survives the conversion to 32 bits, is at least
  one, fits the context window together with the prompt, and never exceeds what a request asked
  for.  The window itself is what the engine reported through \<open>GetModel\<close>.
\<close>

theorem budget_fits:
  assumes "GetModel rpc = Inr info" "g_maxCtx g = mi_MaxCtx info"
    and "buildRequest g req = Some (Inr greq)"
  shows "1 \<le> of_int32 (MaxTokens greq) \<and>
     int (length (InputIds greq)) + of_int32 (MaxTokens greq) \<le> g_maxCtx g \<and>
     (0 < rq_MaxTokens req \<longrightarrow> of_int32 (MaxTokens greq) \<le> rq_MaxTokens req)"
proof -
  have ctx: "g_maxCtx g < 2 ^ 31"
    using assms(1,2) of_int32_range by (auto simp: GetModel_def split: sum.splits)
  from assms(3) obtain ids k where *: "resolveMaxTokens g (int (length ids)) (rq_MaxTokens req) = Inr k"
    "InputIds greq = map to_int32 ids" "MaxTokens greq = to_int32 k"
    by (rule buildRequest_Inr)
  have k: "1 \<le> k \<and> int (length ids) + k \<le> g_maxCtx g \<and> (0 < rq_MaxTokens req \<longrightarrow> k \<le> rq_MaxTokens req)"
    by (rule resolve_budget [OF *(1)]) simp
  then have "of_int32 (to_int32 k) = k" using ctx by (intro of_to_int32) auto
  with k * show ?thesis by simp
qed

lemma budget_fits_witness:
  "1 \<le> of_int32 (MaxTokens (sampleGreq\<lparr>MaxTokens := 50\<rparr>)) \<and>
   int (length (InputIds (sampleGreq\<lparr>MaxTokens := 50\<rparr>))) + of_int32 (MaxTokens (sampleGreq\<lparr>MaxTokens := 50\<rparr>))
     \<le> g_maxCtx sampleGen \<and>
   of_int32 (MaxTokens (sampleGreq\<lparr>MaxTokens := 50\<rparr>)) \<le> rq_MaxTokens (sampleReq\<lparr>rq_MaxTokens := 50\<rparr>)"
proof -
  have rpc: "GetModel (Inr \<lparr>pm_Id = [], pm_MaxCtx = 100, pm_VocabSize = 6\<rparr>) =
      Inr \<lparr>mi_ID = [], mi_MaxCtx = 100, mi_VocabSize = 6\<rparr>"
    by (simp add: GetModel_def of_int32_def)
  have build: "buildRequest sampleGen (sampleReq\<lparr>rq_MaxTokens := 50\<rparr>) =
      Some (Inr (sampleGreq\<lparr>MaxTokens := 50\<rparr>))"
    by (simp add: buildRequest_def promptIDs_def sampleReq_def resolveMaxTokens_def sampleGen_def
      sampleGreq_def sampleFormat_def StopTokenIDs_def to_int32_def Let_def)
  show ?thesis
    using budget_fits [OF rpc _ build] by (simp add: sampleGen_def)
qed

text \<open>
  C23: once the prompt is encoded, building the request fails exactly when the prompt
  leaves no room in the context window, and then with \<open>ErrPromptTooLong\<close>; nothing is sent to the
  engine.
\<close>

theorem too_long_rejected:
  assumes "promptIDs g req = Some ids"
  shows "(g_maxCtx g \<le> int (length ids)) =
     (\<exists>e. buildRequest g req = Some (Inl e) \<and> errIs e ErrPromptTooLong \<and>
        Generate rt g req = ([], Some (Inl e)) \<and> Complete rt g req = ([], Some (Inl e)))"
proof (cases "g_maxCtx g \<le> int (length ids)")
  case True
  then show ?thesis
    using chat.run_too_long [OF assms, of rt] raw.run_too_long [OF assms, of rt] by auto
next
  case False
  then obtain k where "resolveMaxTokens g (int (length ids)) (rq_MaxTokens req) = Inr k"
    using resolveMaxTokens_Inl [of g "int (length ids)" "rq_MaxTokens req"]
    by (cases "resolveMaxTokens g (int (length ids)) (rq_MaxTokens req)") auto
  with False show ?thesis using assms by (simp add: buildRequest_def Let_def)
qed

lemma too_long_rejected_witness:
  "(g_maxCtx (sampleGen\<lparr>g_maxCtx := 3\<rparr>) \<le> int (length [7, 8, 9 :: int])) =
     (\<exists>e. buildRequest (sampleGen\<lparr>g_maxCtx := 3\<rparr>) sampleReq = Some (Inl e) \<and>
        errIs e ErrPromptTooLong \<and>
        Generate sampleRt (sampleGen\<lparr>g_maxCtx := 3\<rparr>) sampleReq = ([], Some (Inl e)) \<and>
        Complete sampleRt (sampleGen\<lparr>g_maxCtx := 3\<rparr>) sampleReq = ([], Some (Inl e)))"
  by (rule too_long_rejected) (simp add: promptIDs_def sampleReq_def)

end
