(* ===== verification/ServerTypes.thy ===== *)
theory ServerTypes
  imports Generate
begin

section \<open>The OpenAI wire types\<close>

text \<open>
  \<open>internal/server/types.go\<close>: the request and response types and \<open>ChatMessage.Text\<close>, and the
  mappings \<open>decode\<close>, \<open>decodeCompletion\<close>, \<open>toolCalls\<close> and \<open>classifyError\<close> of
  \<open>internal/server/completions.go\<close>.  A \<open>json.RawMessage\<close> is its bytes; the
  \<open>json.Unmarshal\<close> calls on one are those of \<open>Json\<close>, with \<open>None\<close> for an error.  Pointer fields are
  options.
\<close>

subsection \<open>Requests\<close>

record WireFunction =
  wf_Name :: gostring
  wf_Arguments :: gostring

record WireToolCall =
  wt_ID :: gostring
  wt_Type :: gostring
  wt_Function :: WireFunction

record ChatMessage =
  cm_Role :: gostring
  cm_Content :: gostring
  cm_Name :: gostring
  cm_ToolCalls :: "WireToolCall list"
  cm_ToolCallID :: gostring

record FunctionDef =
  fd_Name :: gostring
  fd_Description :: gostring
  fd_Parameters :: gostring

record Tool =
  to_Type :: gostring
  to_Function :: FunctionDef

record StreamOptions =
  IncludeUsage :: bool

record ChatRequest =
  cq_Model :: gostring
  cq_Messages :: "ChatMessage list"
  cq_Tools :: "Tool list"
  cq_Stream :: bool
  cq_StreamOptions :: "StreamOptions option"
  cq_MaxTokens :: int
  cq_MaxCompletionTokens :: int
  cq_Temperature :: "float64 option"
  cq_TopP :: "float64 option"
  cq_IgnoreEOS :: bool
  cq_EnableThinking :: "bool option"

record CompletionRequest =
  tq_Model :: gostring
  tq_Prompt :: gostring
  tq_MaxTokens :: int
  tq_Temperature :: "float64 option"
  tq_TopP :: "float64 option"
  tq_Stream :: bool
  tq_StreamOptions :: "StreamOptions option"
  tq_IgnoreEOS :: bool

text \<open>The parts of a multimodal content: \<open>Unmarshal\<close> into a slice of structs.\<close>

definition partInto :: "gostring \<times> gostring \<Rightarrow> json \<Rightarrow> (gostring \<times> gostring) option" where
  "partInto p v =
     (case structOf v of
        None \<Rightarrow> None
      | Some ms \<Rightarrow>
        (case (decodeAll stringInto (fst p) (fieldValues ''type'' ms),
               decodeAll stringInto (snd p) (fieldValues ''text'' ms)) of
           (Some ty, Some tx) \<Rightarrow> Some (ty, tx)
         | _ \<Rightarrow> None))"

definition unmarshalParts :: "gostring \<Rightarrow> (gostring \<times> gostring) list option" where
  "unmarshalParts = unmarshal (\<lambda>v. map_option sliceOf (sliceInto partInto ([], []) ([], 0) v))"

definition messageText :: "ChatMessage \<Rightarrow> gostring" where
  "messageText m =
     (if length (cm_Content m) = 0 \<or> cm_Content m = ''null'' then []
      else case unmarshalString (cm_Content m) of
        Some s \<Rightarrow> s
      | None \<Rightarrow>
        (case unmarshalParts (cm_Content m) of
           Some parts \<Rightarrow> fold (\<lambda>(ty, tx) out. if ty = ''text'' then out @ tx else out) parts []
         | None \<Rightarrow> []))"

subsection \<open>Responses\<close>

record Usage =
  u_PromptTokens :: int
  u_CompletionTokens :: int
  u_TotalTokens :: int

record RespMessage =
  rm_Role :: gostring
  rm_Content :: "gostring option"
  rm_ToolCalls :: "WireToolCall list"

record Choice =
  ch_Index :: int
  ch_Message :: "RespMessage option"
  ch_Delta :: "RespMessage option"
  ch_FinishReason :: "gostring option"

record ChatCompletion =
  cc_ID :: gostring
  cc_Object :: gostring
  cc_Created :: int
  cc_Model :: gostring
  cc_Choices :: "Choice list"
  cc_Usage :: "Usage option"

record CompletionChoice =
  tc_Index :: int
  tc_Text :: gostring
  tc_FinishReason :: "gostring option"

record Completion =
  co_ID :: gostring
  co_Object :: gostring
  co_Created :: int
  co_Model :: gostring
  co_Choices :: "CompletionChoice list"
  co_Usage :: "Usage option"

record ModelEntry =
  me_ID :: gostring
  me_Object :: gostring
  me_Created :: int
  me_OwnedBy :: gostring

record ModelList =
  ml_Object :: gostring
  ml_Data :: "ModelEntry list"

subsection \<open>Mappings\<close>

definition classifyError :: "goerror \<Rightarrow> int \<times> gostring" where
  "classifyError err =
     (if errIs err ErrPromptTooLong then (400, ''invalid_request_error'')
      else if errIs err ErrOverCapacity then (503, ''overloaded_error'')
      else (502, ''engine_error''))"

definition decodeMessage :: "ChatMessage \<Rightarrow> Message" where
  "decodeMessage m =
     \<lparr>Role = cm_Role m, Content = messageText m,
      ToolCalls = map (\<lambda>tc. \<lparr>tc_ID = wt_ID tc, tc_Name = wf_Name (wt_Function tc),
         tc_ArgumentsJSON = wf_Arguments (wt_Function tc)\<rparr>) (cm_ToolCalls m),
      ToolCallID = cm_ToolCallID m\<rparr>"

definition decode :: "ChatRequest \<Rightarrow> request" where
  "decode req =
     (let msgs = map (decodeMessage) (cq_Messages req);
          tools = map (\<lambda>t. \<lparr>td_Name = fd_Name (to_Function t),
            td_Description = fd_Description (to_Function t),
            td_ParametersJSON = fd_Parameters (to_Function t)\<rparr>) (cq_Tools req);
          maxTokens = (if 0 < cq_MaxCompletionTokens req then cq_MaxCompletionTokens req
                       else cq_MaxTokens req) in
      \<lparr>rq_Messages = msgs, rq_Tools = tools,
       rq_EnableThinking = (case cq_EnableThinking req of Some b \<Rightarrow> b | None \<Rightarrow> False),
       rq_MaxTokens = maxTokens, rq_Temperature = cq_Temperature req, rq_TopP = cq_TopP req,
       rq_IgnoreEOS = cq_IgnoreEOS req, rq_RawPrompt = [], rq_InputIDs = []\<rparr>)"

definition decodeCompletion :: "CompletionRequest \<Rightarrow> gostring + request" where
  "decodeCompletion req =
     (let er = \<lparr>rq_Messages = [], rq_Tools = [], rq_EnableThinking = False,
            rq_MaxTokens = tq_MaxTokens req, rq_Temperature = tq_Temperature req,
            rq_TopP = tq_TopP req, rq_IgnoreEOS = tq_IgnoreEOS req, rq_RawPrompt = [],
            rq_InputIDs = []\<rparr> in
      case unmarshalString (tq_Prompt req) of
        Some s \<Rightarrow> Inr (er\<lparr>rq_RawPrompt := s\<rparr>)
      | None \<Rightarrow>
        (case unmarshalInts (tq_Prompt req) of
           Some ids \<Rightarrow> Inr (er\<lparr>rq_InputIDs := ids\<rparr>)
         | None \<Rightarrow> Inl ''prompt must be a string or an array of token ids''))"

definition toolCalls :: "ToolCall list \<Rightarrow> WireToolCall list" where
  "toolCalls tcs = map (\<lambda>tc. \<lparr>wt_ID = tc_ID tc, wt_Type = ''function'',
     wt_Function = \<lparr>wf_Name = tc_Name tc, wf_Arguments = tc_ArgumentsJSON tc\<rparr>\<rparr>) tcs"

lemma toolCalls_simps [simp]: "toolCalls [] = []" "toolCalls (a @ b) = toolCalls a @ toolCalls b"
  "length (toolCalls a) = length a"
  by (simp_all add: toolCalls_def)

lemma toolCalls_Cons: "toolCalls (x # b) = toolCalls [x] @ toolCalls b"
  by (simp add: toolCalls_def)

lemma messageText_parts:
  assumes "cm_Content m \<noteq> []" "cm_Content m \<noteq> ''null''" "unmarshalString (cm_Content m) = None"
    "unmarshalParts (cm_Content m) = Some parts"
  shows "messageText m = concat (map snd (filter (\<lambda>p. fst p = ''text'') parts))"
proof -
  have "fold (\<lambda>(ty, tx) out. if ty = ''text'' then out @ tx else out) parts out =
      out @ concat (map snd (filter (\<lambda>p. fst p = ''text'') parts))" for out
    by (induction parts arbitrary: out) auto
  with assms show ?thesis by (simp add: messageText_def)
qed

end
