(* ===== verification/Completions.thy ===== *)
theory Completions
  imports ServerTypes
begin

section \<open>The HTTP handlers\<close>

text \<open>
  The handlers of \<open>internal/server/completions.go\<close> and \<open>internal/server/server.go\<close>.  What a
  handler does to the connection is the list of its writes: a JSON response with its status, or
  the events of an SSE stream.  \<open>connection\<close> holds what a handler reads from outside: whether
  the writer can flush, whether the request context is cancelled when generation has ended, the
  random id and the clock.  A handler whose generation has not returned has made the writes of
  the deltas so far.
\<close>

datatype body =
    ErrorBody gostring gostring
  | MessageOnly gostring
  | ChatBody ChatCompletion
  | TextBody Completion
  | ModelsBody ModelList
  | StringBody gostring

text \<open>
  \<open>c.JSON(status, body)\<close>, an SSE event \<open>data: body\<close>, \<open>data: [DONE]\<close>, and \<open>c.Header\<close>, which only
  notes a header for the first write to send.
\<close>

datatype emission = Respond int body | Event body | DoneEvent | Header gostring gostring

record connection =
  cx_flusher :: bool
  cx_cancelled :: bool
  cx_id :: gostring
  cx_now :: int

record server =
  sv_gen :: generator
  sv_model :: gostring

definition NewServer :: "generator \<Rightarrow> gostring \<Rightarrow> server" where
  "NewServer gen model = \<lparr>sv_gen = gen, sv_model = model\<rparr>"

abbreviation badRequest :: "gostring \<Rightarrow> emission list" where
  "badRequest msg \<equiv> [Respond 400 (ErrorBody msg ''invalid_request_error'')]"

definition errorResponse :: "goerror \<Rightarrow> emission list" where
  "errorResponse err =
     (let (status, typ) = classifyError err in [Respond status (ErrorBody (errText err) typ)])"

definition errorEvent :: "goerror \<Rightarrow> emission list" where
  "errorEvent err =
     (let (_, typ) = classifyError err in [Event (ErrorBody (errText err) typ), DoneEvent])"

definition sseHeaders :: "emission list" where
  "sseHeaders = [Header ''Content-Type'' ''text/event-stream'', Header ''Cache-Control'' ''no-cache'',
     Header ''Connection'' ''keep-alive'']"

definition usageOf :: "result \<Rightarrow> Usage" where
  "usageOf res = \<lparr>u_PromptTokens = r_PromptTokens res, u_CompletionTokens = r_CompletionTokens res,
     u_TotalTokens = r_PromptTokens res + r_CompletionTokens res\<rparr>"

subsection \<open>Chat\<close>

definition blockingChat :: "runtime \<Rightarrow> server \<Rightarrow> connection \<Rightarrow> request \<Rightarrow> emission list" where
  "blockingChat rt sv cx req =
     (case snd (Generate rt (sv_gen sv) req) of
        None \<Rightarrow> []
      | Some (Inl err) \<Rightarrow> errorResponse err
      | Some (Inr res) \<Rightarrow>
        let msg = \<lparr>rm_Role = ''assistant'', rm_Content = None, rm_ToolCalls = []\<rparr>;
            msg = (if 0 < length (r_ToolCalls res) then
                     let msg = msg\<lparr>rm_ToolCalls := toolCalls (r_ToolCalls res)\<rparr> in
                     (if r_Text res \<noteq> [] then msg\<lparr>rm_Content := Some (r_Text res)\<rparr> else msg)
                   else msg\<lparr>rm_Content := Some (r_Text res)\<rparr>) in
        [Respond 200 (ChatBody
          \<lparr>cc_ID = cx_id cx, cc_Object = ''chat.completion'', cc_Created = cx_now cx,
           cc_Model = sv_model sv,
           cc_Choices = [\<lparr>ch_Index = 0, ch_Message = Some msg, ch_Delta = None,
             ch_FinishReason = Some (r_FinishReason res)\<rparr>],
           cc_Usage = Some (usageOf res)\<rparr>)])"

definition chatChunk ::
  "server \<Rightarrow> connection \<Rightarrow> RespMessage \<Rightarrow> gostring option \<Rightarrow> emission" where
  "chatChunk sv cx delta reason =
     Event (ChatBody \<lparr>cc_ID = cx_id cx, cc_Object = ''chat.completion.chunk'',
       cc_Created = cx_now cx, cc_Model = sv_model sv,
       cc_Choices = [\<lparr>ch_Index = 0, ch_Message = None, ch_Delta = Some delta,
         ch_FinishReason = reason\<rparr>],
       cc_Usage = None\<rparr>)"

abbreviation noMessage :: RespMessage where
  "noMessage \<equiv> \<lparr>rm_Role = [], rm_Content = None, rm_ToolCalls = []\<rparr>"

text \<open>The closure \<open>sendRole\<close> on its flag and the writes so far.\<close>

definition sendRole :: "server \<Rightarrow> connection \<Rightarrow> bool \<times> emission list \<Rightarrow> bool \<times> emission list" where
  "sendRole sv cx = (\<lambda>(roleSent, out).
     if \<not> roleSent then (True, out @ [chatChunk sv cx (noMessage\<lparr>rm_Role := ''assistant''\<rparr>) None])
     else (roleSent, out))"

definition onDelta_chat ::
  "server \<Rightarrow> connection \<Rightarrow> delta \<Rightarrow> bool \<times> emission list \<Rightarrow> bool \<times> emission list" where
  "onDelta_chat sv cx = (\<lambda>(tx, tc) st.
     let (roleSent, out) = sendRole sv cx st;
         out = (if tx \<noteq> [] then out @ [chatChunk sv cx (noMessage\<lparr>rm_Content := Some tx\<rparr>) None]
                else out);
         out = (case tc of
                  Some c \<Rightarrow> out @ [chatChunk sv cx (noMessage\<lparr>rm_ToolCalls := toolCalls [c]\<rparr>) None]
                | None \<Rightarrow> out) in
     (roleSent, out))"

definition streamChat ::
  "runtime \<Rightarrow> server \<Rightarrow> connection \<Rightarrow> request \<Rightarrow> bool \<Rightarrow> emission list" where
  "streamChat rt sv cx req includeUsage = sseHeaders @
     (if \<not> cx_flusher cx then [Respond 500 (MessageOnly ''streaming unsupported'')]
      else
        let (ds, ended) = Generate rt (sv_gen sv) req;
            (roleSent, out) = fold (onDelta_chat sv cx) ds (False, []) in
        (case ended of
           None \<Rightarrow> out
         | Some (Inl err) \<Rightarrow> if cx_cancelled cx then out else out @ errorEvent err
         | Some (Inr res) \<Rightarrow>
           let (roleSent, out) = sendRole sv cx (roleSent, out);
               out = out @ [chatChunk sv cx noMessage (Some (r_FinishReason res))];
               out = (if includeUsage then
                        out @ [Event (ChatBody
                          \<lparr>cc_ID = cx_id cx, cc_Object = ''chat.completion.chunk'',
                           cc_Created = cx_now cx, cc_Model = sv_model sv, cc_Choices = [],
                           cc_Usage = Some (usageOf res)\<rparr>)]
                      else out) in
           out @ [DoneEvent]))"

text \<open>\<open>ShouldBindJSON\<close> gives an error message or the request.\<close>

definition chatCompletions ::
  "runtime \<Rightarrow> server \<Rightarrow> connection \<Rightarrow> gostring + ChatRequest \<Rightarrow> emission list" where
  "chatCompletions rt sv cx bind =
     (case bind of
        Inl err \<Rightarrow> badRequest err
      | Inr req \<Rightarrow>
        if length (cq_Messages req) = 0 then badRequest ''messages is required''
        else if cq_Stream req then
          let includeUsage = (case cq_StreamOptions req of Some so \<Rightarrow> IncludeUsage so | None \<Rightarrow> False) in
          streamChat rt sv cx (decode req) includeUsage
        else blockingChat rt sv cx (decode req))"

subsection \<open>Raw completions\<close>

definition blockingCompletion :: "runtime \<Rightarrow> server \<Rightarrow> connection \<Rightarrow> request \<Rightarrow> emission list" where
  "blockingCompletion rt sv cx req =
     (case snd (Complete rt (sv_gen sv) req) of
        None \<Rightarrow> []
      | Some (Inl err) \<Rightarrow> errorResponse err
      | Some (Inr res) \<Rightarrow>
        [Respond 200 (TextBody
          \<lparr>co_ID = cx_id cx, co_Object = ''text_completion'', co_Created = cx_now cx,
           co_Model = sv_model sv,
           co_Choices = [\<lparr>tc_Index = 0, tc_Text = r_Text res, tc_FinishReason = Some (r_FinishReason res)\<rparr>],
           co_Usage = Some (usageOf res)\<rparr>)])"

definition textChunk :: "server \<Rightarrow> connection \<Rightarrow> gostring \<Rightarrow> gostring option \<Rightarrow> emission" where
  "textChunk sv cx tx reason =
     Event (TextBody \<lparr>co_ID = cx_id cx, co_Object = ''text_completion'', co_Created = cx_now cx,
       co_Model = sv_model sv,
       co_Choices = [\<lparr>tc_Index = 0, tc_Text = tx, tc_FinishReason = reason\<rparr>],
       co_Usage = None\<rparr>)"

definition onDelta_text :: "server \<Rightarrow> connection \<Rightarrow> gostring \<Rightarrow> emission list \<Rightarrow> emission list" where
  "onDelta_text sv cx tx out = (if tx \<noteq> [] then out @ [textChunk sv cx tx None] else out)"

definition streamCompletion ::
  "runtime \<Rightarrow> server \<Rightarrow> connection \<Rightarrow> request \<Rightarrow> bool \<Rightarrow> emission list" where
  "streamCompletion rt sv cx req includeUsage = sseHeaders @
     (if \<not> cx_flusher cx then [Respond 500 (MessageOnly ''streaming unsupported'')]
      else
        let (ds, ended) = Complete rt (sv_gen sv) req;
            out = fold (onDelta_text sv cx) ds [] in
        (case ended of
           None \<Rightarrow> out
         | Some (Inl err) \<Rightarrow> if cx_cancelled cx then out else out @ errorEvent err
         | Some (Inr res) \<Rightarrow>
           let out = out @ [textChunk sv cx [] (Some (r_FinishReason res))];
               out = (if includeUsage then
                        out @ [Event (TextBody
                          \<lparr>co_ID = cx_id cx, co_Object = ''text_completion'',
                           co_Created = cx_now cx, co_Model = sv_model sv, co_Choices = [],
                           co_Usage = Some (usageOf res)\<rparr>)]
                      else out) in
           out @ [DoneEvent]))"

definition completions ::
  "runtime \<Rightarrow> server \<Rightarrow> connection \<Rightarrow> gostring + CompletionRequest \<Rightarrow> emission list" where
  "completions rt sv cx bind =
     (case bind of
        Inl err \<Rightarrow> badRequest err
      | Inr req \<Rightarrow>
        if length (tq_Prompt req) = 0 then badRequest ''prompt is required''
        else
          (case decodeCompletion req of
             Inl err \<Rightarrow> badRequest err
           | Inr er \<Rightarrow>
             if tq_Stream req then
               let includeUsage = (case tq_StreamOptions req of Some so \<Rightarrow> IncludeUsage so | None \<Rightarrow> False) in
               streamCompletion rt sv cx er includeUsage
             else blockingCompletion rt sv cx er))"

subsection \<open>The service\<close>

definition listModels :: "server \<Rightarrow> connection \<Rightarrow> emission list" where
  "listModels sv cx =
     [Respond 200 (ModelsBody \<lparr>ml_Object = ''list'',
        ml_Data = [\<lparr>me_ID = sv_model sv, me_Object = ''model'', me_Created = cx_now cx,
          me_OwnedBy = ''flashqwen''\<rparr>]\<rparr>)]"

text \<open>\<open>Run\<close> registers four routes; anything else is the router's 404.\<close>

datatype http_request =
    GetRequest gostring
  | PostChat "gostring + ChatRequest"
  | PostCompletion "gostring + CompletionRequest"

definition serveRequest ::
  "runtime \<Rightarrow> server \<Rightarrow> connection \<Rightarrow> http_request \<Rightarrow> emission list" where
  "serveRequest rt sv cx r =
     (case r of
        GetRequest path \<Rightarrow>
          if path = ''/healthz'' then [Respond 200 (StringBody ''ok'')]
          else if path = ''/v1/models'' then listModels sv cx
          else [Respond 404 (StringBody ''404 page not found'')]
      | PostChat bind \<Rightarrow> chatCompletions rt sv cx bind
      | PostCompletion bind \<Rightarrow> completions rt sv cx bind)"

fun hexDigits :: "nat \<Rightarrow> nat \<Rightarrow> gostring" where
  "hexDigits 0 n = []"
| "hexDigits (Suc k) n =
     hexDigits k (n div 16) @ [byte (if n mod 16 < 10 then 48 + n mod 16 else 87 + n mod 16)]"

text \<open>\<open>fmt.Sprintf("chatcmpl-%016x%016x", a, b)\<close> on two random 64-bit values.\<close>

definition newID :: "64 word \<Rightarrow> 64 word \<Rightarrow> gostring" where
  "newID a b = ''chatcmpl-'' @ hexDigits 16 (unat a) @ hexDigits 16 (unat b)"

subsection \<open>The event sequences\<close>

definition roleChunk :: "server \<Rightarrow> connection \<Rightarrow> emission" where
  "roleChunk sv cx = chatChunk sv cx (noMessage\<lparr>rm_Role := ''assistant''\<rparr>) None"

definition deltaChunks :: "server \<Rightarrow> connection \<Rightarrow> delta \<Rightarrow> emission list" where
  "deltaChunks sv cx = (\<lambda>(tx, tc).
     (if tx \<noteq> [] then [chatChunk sv cx (noMessage\<lparr>rm_Content := Some tx\<rparr>) None] else []) @
     (case tc of Some c \<Rightarrow> [chatChunk sv cx (noMessage\<lparr>rm_ToolCalls := toolCalls [c]\<rparr>) None]
      | None \<Rightarrow> []))"

definition usageEvents :: "server \<Rightarrow> connection \<Rightarrow> bool \<Rightarrow> result \<Rightarrow> emission list" where
  "usageEvents sv cx includeUsage res =
     (if includeUsage then
        [Event (ChatBody
          \<lparr>cc_ID = cx_id cx, cc_Object = ''chat.completion.chunk'', cc_Created = cx_now cx,
           cc_Model = sv_model sv, cc_Choices = [], cc_Usage = Some (usageOf res)\<rparr>)]
      else [])"

lemma onDelta_chat_eq:
  "onDelta_chat sv cx d (sent, out) =
     (True, out @ (if sent then [] else [roleChunk sv cx]) @ deltaChunks sv cx d)"
  by (cases d) (simp add: onDelta_chat_def sendRole_def roleChunk_def deltaChunks_def Let_def split: option.split)

lemma fold_onDelta_sent:
  "fold (onDelta_chat sv cx) ds (True, out) = (True, out @ concat (map (deltaChunks sv cx) ds))"
  by (induction ds arbitrary: out) (simp_all add: onDelta_chat_eq)

lemma fold_onDelta_chat:
  "fold (onDelta_chat sv cx) ds (False, []) =
     (ds \<noteq> [], (if ds = [] then [] else [roleChunk sv cx]) @ concat (map (deltaChunks sv cx) ds))"
  by (cases ds) (simp_all add: onDelta_chat_eq fold_onDelta_sent)

lemma streamChat_success:
  assumes "cx_flusher cx" "Generate rt (sv_gen sv) req = (ds, Some (Inr res))"
  shows "streamChat rt sv cx req u = sseHeaders @
    roleChunk sv cx # concat (map (deltaChunks sv cx) ds) @
      chatChunk sv cx noMessage (Some (r_FinishReason res)) # usageEvents sv cx u res @ [DoneEvent]"
  using assms by (cases "ds = []")
    (simp_all add: streamChat_def fold_onDelta_chat sendRole_def usageEvents_def roleChunk_def)

lemma streamChat_error:
  assumes "cx_flusher cx" "Generate rt (sv_gen sv) req = (ds, Some (Inl err))"
  shows "streamChat rt sv cx req u = sseHeaders @
    (if ds = [] then [] else [roleChunk sv cx]) @ concat (map (deltaChunks sv cx) ds) @
      (if cx_cancelled cx then [] else errorEvent err)"
  using assms by (simp add: streamChat_def fold_onDelta_chat)

lemma fold_onDelta_text:
  "list_all (\<lambda>tx. tx \<noteq> []) ds \<Longrightarrow>
   fold (onDelta_text sv cx) ds out = out @ map (\<lambda>tx. textChunk sv cx tx None) ds"
  by (induction ds arbitrary: out) (simp_all add: onDelta_text_def)

subsection \<open>What a client reads\<close>

text \<open>The parts of a chat stream a client collects from its choices.\<close>

fun choicesOf :: "emission \<Rightarrow> Choice list" where
  "choicesOf (Event (ChatBody cc)) = cc_Choices cc"
| "choicesOf _ = []"

definition sseDeltas :: "emission list \<Rightarrow> RespMessage list" where
  "sseDeltas ws = List.map_filter ch_Delta (concat (map choicesOf ws))"

definition sseContent :: "emission list \<Rightarrow> gostring" where
  "sseContent ws = concat (List.map_filter rm_Content (sseDeltas ws))"

definition sseCalls :: "emission list \<Rightarrow> WireToolCall list" where
  "sseCalls ws = concat (map rm_ToolCalls (sseDeltas ws))"

definition sseRoles :: "emission list \<Rightarrow> gostring list" where
  "sseRoles ws = filter (\<lambda>r. r \<noteq> []) (map rm_Role (sseDeltas ws))"

definition sseReasons :: "emission list \<Rightarrow> gostring list" where
  "sseReasons ws = List.map_filter ch_FinishReason (concat (map choicesOf ws))"

lemma sse_append [simp]:
  "sseContent (a @ b) = sseContent a @ sseContent b" "sseCalls (a @ b) = sseCalls a @ sseCalls b"
  "sseRoles (a @ b) = sseRoles a @ sseRoles b" "sseReasons (a @ b) = sseReasons a @ sseReasons b"
  by (simp_all add: sseContent_def sseCalls_def sseRoles_def sseReasons_def sseDeltas_def)

lemma sse_Nil [simp]: "sseContent [] = []" "sseCalls [] = []" "sseRoles [] = []" "sseReasons [] = []"
  by (simp_all add: sseContent_def sseCalls_def sseRoles_def sseReasons_def sseDeltas_def map_filter_simps)

lemma sse_Cons:
  "sseContent (a # b) = sseContent [a] @ sseContent b" "sseCalls (a # b) = sseCalls [a] @ sseCalls b"
  "sseRoles (a # b) = sseRoles [a] @ sseRoles b" "sseReasons (a # b) = sseReasons [a] @ sseReasons b"
  using sse_append [of "[a]" b] by simp_all

lemma sse_chunk [simp]:
  "sseContent [chatChunk sv cx m r] = (case rm_Content m of Some c \<Rightarrow> c | None \<Rightarrow> [])"
  "sseCalls [chatChunk sv cx m r] = rm_ToolCalls m"
  "sseRoles [chatChunk sv cx m r] = (if rm_Role m = [] then [] else [rm_Role m])"
  "sseReasons [chatChunk sv cx m r] = (case r of Some x \<Rightarrow> [x] | None \<Rightarrow> [])"
  by (simp_all add: sseContent_def sseCalls_def sseRoles_def sseReasons_def sseDeltas_def chatChunk_def
      map_filter_simps split: option.split)

lemma sse_roleChunk:
  "sseContent [roleChunk sv cx] = []" "sseCalls [roleChunk sv cx] = []"
  "sseRoles [roleChunk sv cx] = [''assistant'']" "sseReasons [roleChunk sv cx] = []"
  by (simp_all add: roleChunk_def)

lemma sse_headers [simp]:
  "sseContent sseHeaders = []" "sseCalls sseHeaders = []" "sseRoles sseHeaders = []" "sseReasons sseHeaders = []"
  by (simp_all add: sseContent_def sseCalls_def sseRoles_def sseReasons_def sseDeltas_def sseHeaders_def
      map_filter_simps)

lemma sse_end [simp]:
  "sseContent [DoneEvent] = []" "sseCalls [DoneEvent] = []" "sseRoles [DoneEvent] = []"
  "sseReasons [DoneEvent] = []"
  "sseContent (usageEvents sv cx u res) = []" "sseCalls (usageEvents sv cx u res) = []"
  "sseRoles (usageEvents sv cx u res) = []" "sseReasons (usageEvents sv cx u res) = []"
  by (simp_all add: sseContent_def sseCalls_def sseRoles_def sseReasons_def sseDeltas_def
      usageEvents_def map_filter_simps)

lemma sse_deltaChunks:
  "sseContent (deltaChunks sv cx d) = fst d"
  "sseCalls (deltaChunks sv cx d) = (case snd d of Some c \<Rightarrow> toolCalls [c] | None \<Rightarrow> [])"
  "sseRoles (deltaChunks sv cx d) = []" "sseReasons (deltaChunks sv cx d) = []"
  by (cases d; simp add: deltaChunks_def split: option.split)+

lemma sse_deltas:
  "sseContent (concat (map (deltaChunks sv cx) ds)) = concat (map fst ds)"
  "sseCalls (concat (map (deltaChunks sv cx) ds)) = toolCalls (List.map_filter snd ds)"
  "sseRoles (concat (map (deltaChunks sv cx) ds)) = []"
  "sseReasons (concat (map (deltaChunks sv cx) ds)) = []"
proof -
  show "sseContent (concat (map (deltaChunks sv cx) ds)) = concat (map fst ds)"
    by (induction ds) (simp_all add: sse_deltaChunks)
  show "sseCalls (concat (map (deltaChunks sv cx) ds)) = toolCalls (List.map_filter snd ds)"
    by (induction ds) (simp_all add: sse_deltaChunks map_filter_simps toolCalls_def split: option.split)
  show "sseRoles (concat (map (deltaChunks sv cx) ds)) = []"
    by (induction ds) (simp_all add: sse_deltaChunks)
  show "sseReasons (concat (map (deltaChunks sv cx) ds)) = []"
    by (induction ds) (simp_all add: sse_deltaChunks)
qed

text \<open>The parts of a blocking chat response.\<close>

fun blockingView :: "emission list \<Rightarrow> (gostring \<times> WireToolCall list \<times> gostring list) option" where
  "blockingView [Respond st (ChatBody cc)] =
     (case cc_Choices cc of
        [ch] \<Rightarrow>
          (case ch_Message ch of
             Some m \<Rightarrow> Some (case rm_Content m of Some c \<Rightarrow> c | None \<Rightarrow> [], rm_ToolCalls m,
               case ch_FinishReason ch of Some x \<Rightarrow> [x] | None \<Rightarrow> [])
           | None \<Rightarrow> None)
      | _ \<Rightarrow> None)"
| "blockingView _ = None"

lemma blockingChat_success:
  assumes "snd (Generate rt (sv_gen sv) req) = Some (Inr res)"
  shows "blockingView (blockingChat rt sv cx req) =
    Some (r_Text res, toolCalls (r_ToolCalls res), [r_FinishReason res])"
  using assms by (simp add: blockingChat_def Let_def)

lemma streamChat_view:
  assumes "cx_flusher cx" "Generate rt (sv_gen sv) req = (ds, Some (Inr res))"
  shows "sseContent (streamChat rt sv cx req u) = concat (map fst ds)"
    and "sseCalls (streamChat rt sv cx req u) = toolCalls (List.map_filter snd ds)"
    and "sseRoles (streamChat rt sv cx req u) = [''assistant'']"
    and "sseReasons (streamChat rt sv cx req u) = [r_FinishReason res]"
  unfolding streamChat_success [OF assms]
  by (simp_all add: sse_Cons [of "roleChunk sv cx"] sse_Cons [of "chatChunk _ _ _ _" "_ @ _"]
      sse_deltas sse_roleChunk)

lemma Generate_deltas_result:
  assumes "Generate rt g req = (ds, Some (Inr res))"
  shows "concat (map fst ds) = r_Text res \<and> List.map_filter snd ds = r_ToolCalls res \<and>
    list_all (\<lambda>(tx, tc). tx \<noteq> [] \<or> tc \<noteq> None) ds"
proof -
  have "snd (Generate rt g req) = Some (Inr res)" using assms by simp
  then obtain evs s where "endOf evs = Some (Inr s)" "res = chatResult (g_cm g) evs s"
    "ds = chatDeltas (g_cm g) evs"
    by (rule Generate_success) (use assms in simp)
  then show ?thesis by (simp only: chatDeltas_result chatDeltas_nonempty)
qed

subsection \<open>Completion ids\<close>

lemma hexDigits_length [simp]: "length (hexDigits k n) = k"
  by (induction k arbitrary: n) simp_all

lemma byte_inject: "a < 256 \<Longrightarrow> b < 256 \<Longrightarrow> byte a = byte b \<longleftrightarrow> a = b"
  by (metis bv_byte)

lemma hex_inject: "m < 16 \<Longrightarrow> n < 16 \<Longrightarrow>
  (byte (if m < 10 then 48 + m else 87 + m) = byte (if n < 10 then 48 + n else 87 + n)) \<longleftrightarrow> m = n"
  by (subst byte_inject) auto

lemma hexDigits_inject: "hexDigits k m = hexDigits k n \<longleftrightarrow> m mod 16 ^ k = n mod 16 ^ k"
proof (induction k arbitrary: m n)
  case (Suc k)
  have split: "x mod 16 ^ Suc k = 16 * (x div 16 mod 16 ^ k) + x mod 16" for x :: nat
    by (simp add: mod_mult2_eq)
  have pair: "a < 16 \<Longrightarrow> b < 16 \<Longrightarrow> 16 * x + a = 16 * y + b \<longleftrightarrow> x = y \<and> a = b" for a b x y :: nat
  proof -
    assume "a < 16" "b < 16"
    then have "(16 * x + a) div 16 = x" "(16 * x + a) mod 16 = a"
      "(16 * y + b) div 16 = y" "(16 * y + b) mod 16 = b" by simp_all
    then show ?thesis by metis
  qed
  have "hexDigits (Suc k) m = hexDigits (Suc k) n \<longleftrightarrow>
      hexDigits k (m div 16) = hexDigits k (n div 16) \<and> m mod 16 = n mod 16"
    unfolding hexDigits.simps append1_eq_conv by (subst hex_inject) simp_all
  also have "\<dots> \<longleftrightarrow> m div 16 mod 16 ^ k = n div 16 mod 16 ^ k \<and> m mod 16 = n mod 16"
    by (simp only: Suc)
  also have "\<dots> \<longleftrightarrow> m mod 16 ^ Suc k = n mod 16 ^ Suc k"
    unfolding split by (subst pair) simp_all
  finally show ?case .
qed simp

declare hexDigits.simps [simp del]

lemma newID_inject: "newID a b = newID c d \<longleftrightarrow> a = c \<and> b = d"
proof -
  have "unat x mod 16 ^ 16 = unat x" for x :: "64 word"
    using unsigned_less [of x, where ?'a = nat] by simp
  then show ?thesis
    by (simp add: newID_def hexDigits_inject word_eq_iff_unsigned [where ?'a = nat])
qed

subsection \<open>What a client of the raw endpoint reads\<close>

fun textOf :: "emission \<Rightarrow> gostring" where
  "textOf (Event (TextBody co)) = concat (map tc_Text (co_Choices co))"
| "textOf (Respond st (TextBody co)) = concat (map tc_Text (co_Choices co))"
| "textOf _ = []"

definition allText :: "emission list \<Rightarrow> gostring" where
  "allText ws = concat (map textOf ws)"

lemma textDeltas_nonempty: "list_all (\<lambda>tx. tx \<noteq> []) (textDeltas tok evs)"
  by (auto simp: textDeltas_def list_all_iff case_prod_unfold Let_def)

definition textUsage :: "server \<Rightarrow> connection \<Rightarrow> bool \<Rightarrow> result \<Rightarrow> emission list" where
  "textUsage sv cx includeUsage res =
     (if includeUsage then
        [Event (TextBody
          \<lparr>co_ID = cx_id cx, co_Object = ''text_completion'', co_Created = cx_now cx,
           co_Model = sv_model sv, co_Choices = [], co_Usage = Some (usageOf res)\<rparr>)]
      else [])"

lemma textUsage_text [simp]: "allText (textUsage sv cx u res) = []"
  by (simp add: textUsage_def allText_def)

lemma streamCompletion_success:
  assumes "cx_flusher cx" "Complete rt (sv_gen sv) req = (ds, Some (Inr res))"
  shows "streamCompletion rt sv cx req u = sseHeaders @
    map (\<lambda>tx. textChunk sv cx tx None) ds @
      textChunk sv cx [] (Some (r_FinishReason res)) # textUsage sv cx u res @ [DoneEvent]"
proof -
  have "snd (Complete rt (sv_gen sv) req) = Some (Inr res)" using assms by simp
  then obtain evs where "ds = textDeltas (g_tok (sv_gen sv)) evs"
    by (rule Complete_success) (use assms in simp)
  then have "list_all (\<lambda>tx. tx \<noteq> []) ds" by (simp only: textDeltas_nonempty)
  from fold_onDelta_text [OF this, of sv cx "[]"] show ?thesis
    using assms by (simp add: streamCompletion_def textUsage_def)
qed

lemma allText_chunks: "allText (map (\<lambda>tx. textChunk sv cx tx None) ds) = concat ds"
  by (induction ds) (simp_all add: allText_def textChunk_def)

subsection \<open>The properties of the handlers\<close>

definition sampleServer :: server where
  "sampleServer = \<lparr>sv_gen = sampleGen, sv_model = ''qwen3''\<rparr>"

definition sampleConn :: connection where
  "sampleConn = \<lparr>cx_flusher = True, cx_cancelled = False, cx_id = ''id'', cx_now = 0\<rparr>"

lemma sample_server_Generate:
  "snd (Generate sampleRt (sv_gen sampleServer) sampleReq) =
     Some (Inr (chatResult sampleFormat sampleEvents sampleStats))"
  using sample_Generate by (simp add: sampleServer_def)

text \<open>
  C8: a chat completion read from the SSE stream is the one the blocking endpoint
  returns: the contents of its chunks concatenate to the message's content, their tool calls are
  the message's, in order, there is one finish reason and it is the same, and the role is sent
  exactly once.
\<close>

theorem streamChat_matches_blocking:
  assumes "cx_flusher cx" "snd (Generate rt (sv_gen sv) req) = Some (Inr res)"
  shows "blockingView (blockingChat rt sv cx req) =
     Some (sseContent (streamChat rt sv cx req u), sseCalls (streamChat rt sv cx req u),
           sseReasons (streamChat rt sv cx req u)) \<and>
   sseRoles (streamChat rt sv cx req u) = [''assistant'']"
proof -
  obtain ds where g: "Generate rt (sv_gen sv) req = (ds, Some (Inr res))"
    using assms(2) by (metis prod.collapse)
  then show ?thesis
    using Generate_deltas_result [OF g]
    by (simp add: streamChat_view [OF assms(1) g] blockingChat_success [OF assms(2)])
qed

lemma streamChat_matches_blocking_witness:
  "blockingView (blockingChat sampleRt sampleServer sampleConn sampleReq) =
     Some (sseContent (streamChat sampleRt sampleServer sampleConn sampleReq True),
           sseCalls (streamChat sampleRt sampleServer sampleConn sampleReq True),
           sseReasons (streamChat sampleRt sampleServer sampleConn sampleReq True)) \<and>
   sseRoles (streamChat sampleRt sampleServer sampleConn sampleReq True) = [''assistant'']"
  by (rule streamChat_matches_blocking [OF _ sample_server_Generate]) (simp add: sampleConn_def)

text \<open>
  C18: the events of a successful chat stream are: the role chunk, the chunks of
  the deltas, a chunk with the finish reason, the usage if it was asked for, and \<open>[DONE]\<close>, with
  nothing in between and nothing after it.  The role comes first even if no token was generated.
\<close>

theorem streamChat_sequence:
  assumes "cx_flusher cx" "snd (Generate rt (sv_gen sv) req) = Some (Inr res)"
  shows "streamChat rt sv cx req u =
    sseHeaders @ [roleChunk sv cx] @ concat (map (deltaChunks sv cx) (fst (Generate rt (sv_gen sv) req))) @
      [chatChunk sv cx noMessage (Some (r_FinishReason res))] @ usageEvents sv cx u res @ [DoneEvent]"
proof -
  have g: "Generate rt (sv_gen sv) req = (fst (Generate rt (sv_gen sv) req), Some (Inr res))"
    using assms(2) by (metis prod.collapse)
  show ?thesis using streamChat_success [OF assms(1) g] by simp
qed

lemma streamChat_sequence_witness:
  "streamChat sampleRt sampleServer sampleConn sampleReq True =
    sseHeaders @ [roleChunk sampleServer sampleConn] @
    concat (map (deltaChunks sampleServer sampleConn) (fst (Generate sampleRt (sv_gen sampleServer) sampleReq))) @
    [chatChunk sampleServer sampleConn noMessage
      (Some (r_FinishReason (chatResult sampleFormat sampleEvents sampleStats)))] @
    usageEvents sampleServer sampleConn True (chatResult sampleFormat sampleEvents sampleStats) @
    [DoneEvent]"
  by (rule streamChat_sequence [OF _ sample_server_Generate]) (simp add: sampleConn_def)

text \<open>
  C29: when a request is refused before anything is sent to the engine, the
  blocking endpoint answers with the error's HTTP status, but the stream answers, as its first
  write, with an error event under the implicit status 200, although nothing has been written
  before (\<open>Header\<close> only notes what the first write will send).
\<close>

theorem streamChat_preflight_status:
  assumes "cx_flusher cx" "\<not> cx_cancelled cx"
    and "buildRequest (sv_gen sv) req = Some (Inl e)" "classifyError e = (status, typ)"
  shows "blockingChat rt sv cx req = [Respond status (ErrorBody (errText e) typ)] \<and>
    streamChat rt sv cx req u = sseHeaders @ [Event (ErrorBody (errText e) typ), DoneEvent]"
proof -
  note g = chat.run_refused [OF assms(3)]
  then show ?thesis
    using assms by (simp add: blockingChat_def streamChat_error errorResponse_def errorEvent_def)
qed

lemma streamChat_preflight_status_witness:
  "\<exists>msg. blockingChat sampleRt (sampleServer\<lparr>sv_gen := sampleGen\<lparr>g_maxCtx := 3\<rparr>\<rparr>) sampleConn sampleReq =
      [Respond 400 (ErrorBody (errText (Wrapped ErrPromptTooLong msg)) ''invalid_request_error'')] \<and>
    streamChat sampleRt (sampleServer\<lparr>sv_gen := sampleGen\<lparr>g_maxCtx := 3\<rparr>\<rparr>) sampleConn sampleReq False =
      sseHeaders @ [Event (ErrorBody (errText (Wrapped ErrPromptTooLong msg)) ''invalid_request_error''), DoneEvent]"
proof (intro exI, rule streamChat_preflight_status)
  show "buildRequest (sv_gen (sampleServer\<lparr>sv_gen := sampleGen\<lparr>g_maxCtx := 3\<rparr>\<rparr>)) sampleReq =
      Some (Inl (Wrapped ErrPromptTooLong (''prompt is '' @ itoa 3 @ '' tokens, context window is '' @ itoa 3)))"
    by (simp add: buildRequest_def promptIDs_def sampleReq_def resolveMaxTokens_def)
qed (simp_all add: sampleConn_def classifyError_def errIs_def)

text \<open>
  C24: an error event of the engine reaches a blocking client as status 503 when the
  engine is over capacity and 502 otherwise, unknown codes included, with the engine's own
  message at the end of the text.
\<close>

theorem engine_error_status:
  assumes "buildRequest (sv_gen sv) req = Some (Inr greq)" "rt_rpc rt greq = Inr evs"
    and "endOf evs = Some (Inl (errorFor x))"
  shows "\<exists>pre. blockingChat rt sv cx req =
     [Respond (if pe_Code x = ERROR_CODE_OVER_CAPACITY then 503 else 502)
        (ErrorBody (pre @ '': '' @ pe_Message x)
          (if pe_Code x = ERROR_CODE_OVER_CAPACITY then ''overloaded_error'' else ''engine_error''))]"
proof -
  have "snd (Generate rt (sv_gen sv) req) = Some (Inl (errorFor x))"
    by (rule chat.run_engine_error [OF assms])
  then show ?thesis
    by (simp add: blockingChat_def errorResponse_def errorFor_def classifyError_def errIs_def)
qed

lemma engine_error_status_witness:
  "\<exists>pre. blockingChat
       (sampleRt\<lparr>rt_rpc := (\<lambda>_. Inr [TokenId 0, Error \<lparr>pe_Code = 1, pe_Message = ''queue full''\<rparr>])\<rparr>)
       sampleServer sampleConn sampleReq =
     [Respond (if pe_Code \<lparr>pe_Code = 1, pe_Message = ''queue full''\<rparr> = ERROR_CODE_OVER_CAPACITY then 503 else 502)
        (ErrorBody (pre @ '': '' @ pe_Message \<lparr>pe_Code = 1, pe_Message = ''queue full''\<rparr>)
          (if pe_Code \<lparr>pe_Code = 1, pe_Message = ''queue full''\<rparr> = ERROR_CODE_OVER_CAPACITY
           then ''overloaded_error'' else ''engine_error''))]"
proof (rule engine_error_status)
  show "buildRequest (sv_gen sampleServer) sampleReq = Some (Inr sampleGreq)"
    by (simp add: buildRequest_def promptIDs_def sampleReq_def resolveMaxTokens_def sampleServer_def
      sampleGen_def sampleGreq_def sampleFormat_def StopTokenIDs_def to_int32_def Let_def)
  show "endOf [TokenId 0, Error \<lparr>pe_Code = 1, pe_Message = ''queue full''\<rparr>] =
      Some (Inl (errorFor \<lparr>pe_Code = 1, pe_Message = ''queue full''\<rparr>))"
    by (simp add: endOf_def)
qed simp

text \<open>
  C22: the text a client of \<open>/v1/completions\<close> collects from the stream is the text
  of the blocking response, and the stream ends with \<open>[DONE]\<close>.
\<close>

theorem streamCompletion_matches_blocking:
  assumes "cx_flusher cx" "snd (Complete rt (sv_gen sv) req) = Some (Inr res)"
  shows "allText (streamCompletion rt sv cx req u) = allText (blockingCompletion rt sv cx req) \<and>
    List.last (streamCompletion rt sv cx req u) = DoneEvent"
proof -
  obtain ds where c: "Complete rt (sv_gen sv) req = (ds, Some (Inr res))"
    using assms(2) by (metis prod.collapse)
  note s = streamCompletion_success [OF assms(1) c, of u]
  have "concat ds = r_Text res" using raw.run_text [OF assms(2)] c by simp
  moreover have "allText (streamCompletion rt sv cx req u) = concat ds"
    using allText_chunks [of sv cx ds] textUsage_text [of sv cx u res]
    unfolding s by (simp add: allText_def textChunk_def sseHeaders_def)
  moreover have "allText (blockingCompletion rt sv cx req) = r_Text res"
    using assms(2) by (simp add: blockingCompletion_def allText_def)
  ultimately show ?thesis by (simp add: s)
qed

lemma streamCompletion_matches_blocking_witness:
  "allText (streamCompletion plainRt sampleServer sampleConn sampleReq True) =
     allText (blockingCompletion plainRt sampleServer sampleConn sampleReq) \<and>
   List.last (streamCompletion plainRt sampleServer sampleConn sampleReq True) = DoneEvent"
  by (rule streamCompletion_matches_blocking [where res = "textResult (fm_tok sampleFormat) plainEvents sampleStats"])
    (use sample_Complete in \<open>simp_all add: sampleConn_def sampleServer_def\<close>)

text \<open>
  C33: a raw completion whose prompt is the empty string, \<open>null\<close> or an empty array is
  accepted, and it is not run on an empty prompt: the engine is given the rendered ChatML
  generation header of a conversation without messages.
\<close>

theorem empty_prompt_renders_template:
  assumes "tq_Prompt req \<in> set [dq @ dq, ''null'', ''[]'']"
  shows "\<exists>er. decodeCompletion req = Inr er \<and>
    promptIDs g er = Encode (g_tok g)
      (im_start ''assistant'' @ ''<think>'' @ nl @ nl @ ''</think>'' @ nl @ nl)"
proof -
  have "unmarshalString (dq @ dq) = Some []" using unmarshalString_quote [of "[]"] by (simp add: quote_def)
  moreover have "unmarshalString ''null'' = Some []"
    by (simp add: unmarshalString_def unmarshal_def encodes_parseJSON [OF encodes_words(3)] stringInto_def)
  moreover have "parseJSON ''[]'' = Some (''[]'', JArr [])"
    using encodes_parseJSON [OF encodes_deeper [OF encodes_array [of 0 "[]" "[]"]]] by (simp add: maxNestingDepth_def)
  then have "unmarshalString ''[]'' = None \<and> unmarshalInts ''[]'' = Some []"
    by (simp add: unmarshalString_def unmarshalInts_def unmarshal_def stringInto_def sliceInto_def sliceOf_def)
  ultimately show ?thesis
    using assms by (auto simp: decodeCompletion_def promptIDs_def Let_def Render_eq renderSystem_def hasSystem_def)
qed

lemma empty_prompt_renders_template_witness:
  "\<exists>er. decodeCompletion
      \<lparr>tq_Model = [], tq_Prompt = ''null'', tq_MaxTokens = 0, tq_Temperature = None, tq_TopP = None,
       tq_Stream = False, tq_StreamOptions = None, tq_IgnoreEOS = False\<rparr> = Inr er \<and>
    promptIDs sampleGen er = Encode (g_tok sampleGen)
      (im_start ''assistant'' @ ''<think>'' @ nl @ nl @ ''</think>'' @ nl @ nl)"
  by (rule empty_prompt_renders_template) simp

text \<open>
  Completion ids are 41 bytes long and determine the two random words they are made from,
  so two ids collide only when all 128 random bits do.
\<close>

theorem newID_injective:
  "length (newID a b) = 41 \<and> (newID a b = newID c d) = (a = c \<and> b = d)"
  by (simp add: newID_inject) (simp add: newID_def)

end
