(* ===== verification/Wire.thy ===== *)
theory Wire
  imports Completions TokLoad
begin

section \<open>The bytes of a response\<close>

text \<open>
  How the handlers' writes become bytes: the JSON of the response types of
  \<open>internal/server/types.go\<close>, field by field with their tags and \<open>omitempty\<close>, and the framing
  \<open>data: ...\<close> of \<open>internal/server/completions.go\<close>.  Against it stands what a client does: split
  the bytes into events, decode each one as JSON and collect the contents and the calls.
\<close>

subsection \<open>The JSON of the response types\<close>

definition optString :: "gostring option \<Rightarrow> goval" where
  "optString x = (case x of None \<Rightarrow> GNil | Some s \<Rightarrow> GStr s)"

definition WireToolCall_json :: "WireToolCall \<Rightarrow> goval" where
  "WireToolCall_json tc = GStruct
     [(''id'', GStr (wt_ID tc)), (''type'', GStr (wt_Type tc)),
      (''function'', GStruct [(''name'', GStr (wf_Name (wt_Function tc))),
        (''arguments'', GStr (wf_Arguments (wt_Function tc)))])]"

definition RespMessage_json :: "RespMessage \<Rightarrow> goval" where
  "RespMessage_json m = GStruct
     ([(''role'', GStr (rm_Role m)), (''content'', optString (rm_Content m))] @
      (if rm_ToolCalls m = [] then []
       else [(''tool_calls'', GSlice (map WireToolCall_json (rm_ToolCalls m)))]))"

definition omitNil :: "gostring \<Rightarrow> ('a \<Rightarrow> goval) \<Rightarrow> 'a option \<Rightarrow> (gostring \<times> goval) list" where
  "omitNil k f x = (case x of None \<Rightarrow> [] | Some y \<Rightarrow> [(k, f y)])"

definition Choice_json :: "Choice \<Rightarrow> goval" where
  "Choice_json c = GStruct
     ([(''index'', GInt (ch_Index c))] @
      omitNil ''message'' RespMessage_json (ch_Message c) @
      omitNil ''delta'' RespMessage_json (ch_Delta c) @
      [(''finish_reason'', optString (ch_FinishReason c))])"

definition Usage_json :: "Usage \<Rightarrow> goval" where
  "Usage_json u = GStruct
     [(''prompt_tokens'', GInt (u_PromptTokens u)), (''completion_tokens'', GInt (u_CompletionTokens u)),
      (''total_tokens'', GInt (u_TotalTokens u))]"

definition ChatCompletion_json :: "ChatCompletion \<Rightarrow> goval" where
  "ChatCompletion_json cc = GStruct
     ([(''id'', GStr (cc_ID cc)), (''object'', GStr (cc_Object cc)), (''created'', GInt (cc_Created cc)),
       (''model'', GStr (cc_Model cc)), (''choices'', GSlice (map Choice_json (cc_Choices cc)))] @
      omitNil ''usage'' Usage_json (cc_Usage cc))"

definition CompletionChoice_json :: "CompletionChoice \<Rightarrow> goval" where
  "CompletionChoice_json c = GStruct
     [(''index'', GInt (tc_Index c)), (''text'', GStr (tc_Text c)),
      (''finish_reason'', optString (tc_FinishReason c))]"

definition Completion_json :: "Completion \<Rightarrow> goval" where
  "Completion_json co = GStruct
     ([(''id'', GStr (co_ID co)), (''object'', GStr (co_Object co)), (''created'', GInt (co_Created co)),
       (''model'', GStr (co_Model co)), (''choices'', GSlice (map CompletionChoice_json (co_Choices co)))] @
      omitNil ''usage'' Usage_json (co_Usage co))"

definition ModelEntry_json :: "ModelEntry \<Rightarrow> goval" where
  "ModelEntry_json m = GStruct
     [(''id'', GStr (me_ID m)), (''object'', GStr (me_Object m)), (''created'', GInt (me_Created m)),
      (''owned_by'', GStr (me_OwnedBy m))]"

definition ModelList_json :: "ModelList \<Rightarrow> goval" where
  "ModelList_json l = GStruct
     [(''object'', GStr (ml_Object l)), (''data'', GSlice (map ModelEntry_json (ml_Data l)))]"

text \<open>The two shapes of \<open>gin.H{"error": ...}\<close>.\<close>

definition error_json :: "gostring \<Rightarrow> gostring \<Rightarrow> goval" where
  "error_json msg typ = GMap [(''error'', GMap [(''message'', GStr msg), (''type'', GStr typ)])]"

definition messageOnly_json :: "gostring \<Rightarrow> goval" where
  "messageOnly_json msg = GMap [(''error'', GMap [(''message'', GStr msg)])]"

definition marshalled :: "goval \<Rightarrow> gostring" where
  "marshalled g = (case marshal g of Some b \<Rightarrow> b | None \<Rightarrow> [])"

fun bodyText :: "body \<Rightarrow> gostring" where
  "bodyText (ErrorBody msg typ) = marshalled (error_json msg typ)"
| "bodyText (MessageOnly msg) = marshalled (messageOnly_json msg)"
| "bodyText (ChatBody cc) = marshalled (ChatCompletion_json cc)"
| "bodyText (TextBody co) = marshalled (Completion_json co)"
| "bodyText (ModelsBody l) = marshalled (ModelList_json l)"
| "bodyText (StringBody s) = s"

subsection \<open>The framing\<close>

fun sseWrite :: "emission \<Rightarrow> gostring" where
  "sseWrite (Event b) = ''data: '' @ bodyText b @ nl @ nl"
| "sseWrite DoneEvent = ''data: [DONE]'' @ nl @ nl"
| "sseWrite (Respond st b) = bodyText b"
| "sseWrite (Header k v) = []"

definition bodyBytes :: "emission list \<Rightarrow> gostring" where
  "bodyBytes ws = concat (map sseWrite ws)"

subsection \<open>The client\<close>

text \<open>
  The event-stream format: a line \<open>data: x\<close> adds \<open>x\<close> to the event's data, lines joined by
  newlines, a blank line ends the event, an unfinished event is dropped.
\<close>

fun eventData :: "gostring list \<Rightarrow> gostring" where
  "eventData [] = []"
| "eventData (l # ls) = l @ (if ls = [] then [] else nl @ eventData ls)"

fun eventsOf :: "gostring list \<Rightarrow> gostring list \<Rightarrow> gostring list" where
  "eventsOf buf [] = []"
| "eventsOf buf (l # ls) =
     (if l = [] then (if buf = [] then eventsOf [] ls else eventData buf # eventsOf [] ls)
      else if prefix ''data: '' l then eventsOf (buf @ [drop 6 l]) ls
      else eventsOf buf ls)"

definition sseEvents :: "gostring \<Rightarrow> gostring list" where
  "sseEvents s = eventsOf [] (rawLines s)"

text \<open>Looking into a decoded event: an absent field is \<open>null\<close>.\<close>

definition field :: "gostring \<Rightarrow> json \<Rightarrow> json" where
  "field name v =
     (case v of
        JObj ms \<Rightarrow> (case rev (fieldValues name ms) of [] \<Rightarrow> JNull | x # _ \<Rightarrow> x)
      | _ \<Rightarrow> JNull)"

definition elements :: "json \<Rightarrow> json list" where
  "elements v = (case v of JArr es \<Rightarrow> map snd es | _ \<Rightarrow> [])"

definition stringIn :: "json \<Rightarrow> gostring" where
  "stringIn v = (case v of JStr b \<Rightarrow> unquote b | _ \<Rightarrow> [])"

definition decoded :: "gostring \<Rightarrow> json" where
  "decoded s = (case parseJSON s of Some (_, v) \<Rightarrow> v | None \<Rightarrow> JNull)"

definition chunkContent :: "gostring \<Rightarrow> gostring" where
  "chunkContent s =
     concat (map (\<lambda>c. stringIn (field ''content'' (field ''delta'' c))) (elements (field ''choices'' (decoded s))))"

definition chunkCalls :: "gostring \<Rightarrow> (gostring \<times> gostring \<times> gostring) list" where
  "chunkCalls s =
     concat (map (\<lambda>c. map (\<lambda>t. (stringIn (field ''id'' t), stringIn (field ''name'' (field ''function'' t)),
         stringIn (field ''arguments'' (field ''function'' t))))
       (elements (field ''tool_calls'' (field ''delta'' c)))) (elements (field ''choices'' (decoded s))))"

definition clientEvents :: "gostring \<Rightarrow> gostring list" where
  "clientEvents s = takeWhile (\<lambda>e. e \<noteq> ''[DONE]'') (sseEvents s)"

definition clientContent :: "gostring \<Rightarrow> gostring" where
  "clientContent s = concat (map chunkContent (clientEvents s))"

definition clientCalls :: "gostring \<Rightarrow> (gostring \<times> gostring \<times> gostring) list" where
  "clientCalls s = concat (map chunkCalls (clientEvents s))"

subsection \<open>Events survive the framing\<close>

fun body_json :: "body \<Rightarrow> goval option" where
  "body_json (ErrorBody msg typ) = Some (error_json msg typ)"
| "body_json (MessageOnly msg) = Some (messageOnly_json msg)"
| "body_json (ChatBody cc) = Some (ChatCompletion_json cc)"
| "body_json (TextBody co) = Some (Completion_json co)"
| "body_json (ModelsBody l) = Some (ModelList_json l)"
| "body_json (StringBody s) = None"

lemma rawless_omitNil: "(\<And>y. rawless (f y)) \<Longrightarrow> list_all (\<lambda>(k, v). rawless v) (omitNil k f x)"
  by (simp add: omitNil_def split: option.split)

lemma rawless_map: "(\<And>x. rawless (f x)) \<Longrightarrow> list_all rawless (map f xs)"
  by (simp add: list_all_iff)

lemma rawless_bodies [simp]:
  "rawless (optString x)" "rawless (WireToolCall_json tc)" "rawless (RespMessage_json m)"
  "rawless (Usage_json u)" "rawless (CompletionChoice_json c)" "rawless (ModelEntry_json e)"
  "rawless (error_json msg typ)" "rawless (messageOnly_json msg)"
proof -
  show opt: "rawless (optString x)" for x by (simp add: optString_def split: option.split)
  show tc: "rawless (WireToolCall_json tc)" for tc by (simp add: WireToolCall_json_def)
  show "rawless (RespMessage_json m)"
    using opt tc by (simp add: RespMessage_json_def list_all_iff)
qed (simp_all add: Usage_json_def CompletionChoice_json_def ModelEntry_json_def error_json_def
  messageOnly_json_def optString_def split: option.split)

lemma rawless_responses [simp]:
  "rawless (Choice_json c)" "rawless (ChatCompletion_json cc)" "rawless (Completion_json co)"
  "rawless (ModelList_json l)"
proof -
  show ch: "rawless (Choice_json c)" for c by (simp add: Choice_json_def rawless_omitNil)
  show "rawless (ChatCompletion_json cc)"
    using ch by (simp add: ChatCompletion_json_def rawless_omitNil rawless_map)
qed (simp_all add: Completion_json_def ModelList_json_def rawless_omitNil rawless_map)

lemma body_json_text: "body_json b = Some g \<Longrightarrow> rawless g \<and> bodyText b = marshalled g"
  by (cases b) auto

lemma marshalled_reads:
  assumes "rawless g"
  shows "nesting g \<le> maxNestingDepth \<Longrightarrow> parseJSON (marshalled g) = Some (marshalled g, json_of g)"
    and "one_line (marshalled g)"
proof -
  obtain b where b: "marshal g = Some b" "encodes (nesting g) b (json_of g)" "one_line b"
    using marshal_encodes [OF assms] by blast
  then have m: "marshalled g = b" by (simp add: marshalled_def)
  show "one_line (marshalled g)" using b m by simp
  assume "nesting g \<le> maxNestingDepth"
  from encodes_parseJSON [OF encodes_deeper [OF b(2) this]]
  show "parseJSON (marshalled g) = Some (marshalled g, json_of g)" by (simp add: m)
qed

lemma rawLines_line: "one_line b \<Longrightarrow> rawLines (b @ nl @ s) = b # rawLines s"
  by (subst rawLines.simps) (auto simp: takeWhile_append dropWhile_append)

lemma eventsOf_write:
  assumes "one_line b"
  shows "eventsOf [] (rawLines (''data: '' @ b @ nl @ nl @ s)) = b # eventsOf [] (rawLines s)"
proof -
  have "one_line (''data: '' @ b)" using assms by simp
  from rawLines_line [OF this, of "nl @ s"] rawLines_line [of "[]" s] show ?thesis by simp
qed

text \<open>The payloads of a stream's writes.\<close>

fun payloads :: "emission list \<Rightarrow> gostring list" where
  "payloads [] = []"
| "payloads (Event b # ws) = bodyText b # payloads ws"
| "payloads (DoneEvent # ws) = ''[DONE]'' # payloads ws"
| "payloads (w # ws) = payloads ws"

definition streaming :: "emission \<Rightarrow> bool" where
  "streaming w = (case w of Respond _ _ \<Rightarrow> False | Event b \<Rightarrow> body_json b \<noteq> None | _ \<Rightarrow> True)"

lemma payloads_append [simp]: "payloads (a @ b) = payloads a @ payloads b"
  by (induction a rule: payloads.induct) simp_all

lemma sseEvents_payloads: "list_all streaming ws \<Longrightarrow> sseEvents (bodyBytes ws) = payloads ws"
proof (induction ws rule: payloads.induct)
  case (2 b ws)
  then obtain g where "body_json b = Some g" by (auto simp: streaming_def)
  then have "one_line (bodyText b)" using body_json_text marshalled_reads(2) by simp
  from eventsOf_write [OF this] show ?case using 2 by (simp add: sseEvents_def bodyBytes_def)
next
  case (3 ws)
  have "one_line ''[DONE]''" by simp
  from eventsOf_write [OF this] show ?case using 3 by (simp add: sseEvents_def bodyBytes_def)
qed (simp_all add: sseEvents_def bodyBytes_def streaming_def rawLines.simps)

subsection \<open>What the client decodes\<close>

lemma nesting_le: "(\<And>x. x \<in> set xs \<Longrightarrow> x \<le> n) \<Longrightarrow> fold max xs 0 \<le> (n :: nat)"
proof -
  have "(\<And>x. x \<in> set xs \<Longrightarrow> x \<le> n) \<Longrightarrow> a \<le> n \<Longrightarrow> fold max xs a \<le> n" for a
    by (induction xs arbitrary: a) auto
  then show "(\<And>x. x \<in> set xs \<Longrightarrow> x \<le> n) \<Longrightarrow> fold max xs 0 \<le> n" by simp
qed

lemma nesting_optString [simp]: "nesting (optString x) = 0"
  by (simp add: optString_def split: option.split)

lemma nesting_WireToolCall [simp]: "nesting (WireToolCall_json tc) = 2"
  by (simp add: WireToolCall_json_def)

lemma nesting_RespMessage: "nesting (RespMessage_json m) \<le> 4"
proof -
  have "fold max (map nesting (map WireToolCall_json (rm_ToolCalls m))) 0 \<le> 2"
    by (rule nesting_le) auto
  then show ?thesis by (simp add: RespMessage_json_def)
qed

lemma nesting_Choice: "nesting (Choice_json c) \<le> 5"
  using nesting_RespMessage by (auto simp: Choice_json_def omitNil_def split: option.split)

lemma nesting_ChatCompletion: "nesting (ChatCompletion_json cc) \<le> 7"
proof -
  have "fold max (map nesting (map Choice_json (cc_Choices cc))) 0 \<le> 5"
    by (rule nesting_le) (use nesting_Choice in auto)
  then show ?thesis by (auto simp: ChatCompletion_json_def omitNil_def Usage_json_def split: option.split)
qed

lemma decoded_ChatBody: "decoded (bodyText (ChatBody cc)) = json_of (ChatCompletion_json cc)"
proof -
  have "nesting (ChatCompletion_json cc) \<le> maxNestingDepth"
    using nesting_ChatCompletion [of cc] by (simp add: maxNestingDepth_def)
  then show ?thesis by (simp add: decoded_def marshalled_reads(1))
qed

lemma decoded_ErrorBody: "decoded (bodyText (ErrorBody msg typ)) = json_of (error_json msg typ)"
proof -
  have "nesting (error_json msg typ) \<le> maxNestingDepth"
    by (simp add: error_json_def maxNestingDepth_def)
  then show ?thesis by (simp add: decoded_def marshalled_reads(1))
qed

lemma keys [simp]:
  "lowerKey ''id''" "lowerKey ''object''" "lowerKey ''created''" "lowerKey ''model''" "lowerKey ''choices''"
  "lowerKey ''usage''" "lowerKey ''index''" "lowerKey ''message''" "lowerKey ''delta''"
  "lowerKey ''finish_reason''" "lowerKey ''role''" "lowerKey ''content''" "lowerKey ''tool_calls''"
  "lowerKey ''type''" "lowerKey ''function''" "lowerKey ''name''" "lowerKey ''arguments''" "lowerKey ''error''"
  by (simp_all add: lowerKey_def)

lemma isField_quoted: "lowerKey k \<Longrightarrow> lowerKey name \<Longrightarrow> isField name (quoteBody k) \<longleftrightarrow> k = name"
  by (simp add: isField_def unquote_quoteBody sanitize_lowerKey foldName_lowerKey)

lemma fieldValues_struct:
  "list_all (\<lambda>(k, v). lowerKey k) kvs \<Longrightarrow> lowerKey name \<Longrightarrow>
   fieldValues name (map (\<lambda>(k, v). (quoteBody k, text_of v, json_of v)) kvs) =
     map (\<lambda>(k, v). json_of v) (filter (\<lambda>(k, v). k = name) kvs)"
  by (induction kvs) (auto simp: isField_quoted)

lemma field_struct:
  assumes "list_all (\<lambda>(k, v). lowerKey k) kvs" "lowerKey name"
  shows "field name (json_of (GStruct kvs)) =
     (case rev (filter (\<lambda>(k, v). k = name) kvs) of [] \<Rightarrow> JNull | x # _ \<Rightarrow> json_of (snd x))"
proof -
  let ?l = "filter (\<lambda>(k, v). k = name) kvs"
  have "field name (json_of (GStruct kvs)) =
      (case map (\<lambda>(k, v). json_of v) (rev ?l) of [] \<Rightarrow> JNull | x # _ \<Rightarrow> x)"
    using fieldValues_struct [OF assms] by (simp add: field_def rev_map)
  then show ?thesis by (cases "rev ?l") (simp_all add: case_prod_unfold)
qed

lemma elements_slice [simp]: "elements (json_of (GSlice vs)) = map json_of vs"
  by (simp add: elements_def comp_def)

lemma stringIn_str [simp]: "stringIn (json_of (GStr s)) = sanitize s"
  by (simp add: stringIn_def unquote_quoteBody)

lemma stringIn_opt [simp]:
  "stringIn (json_of (optString x)) = (case x of None \<Rightarrow> [] | Some s \<Rightarrow> sanitize s)"
  by (simp add: optString_def stringIn_def unquote_quoteBody split: option.split)

declare json_of.simps [simp del]

lemma json_of_call:
  "stringIn (field ''id'' (json_of (WireToolCall_json t))) = sanitize (wt_ID t)"
  "stringIn (field ''name'' (field ''function'' (json_of (WireToolCall_json t)))) = sanitize (wf_Name (wt_Function t))"
  "stringIn (field ''arguments'' (field ''function'' (json_of (WireToolCall_json t)))) =
     sanitize (wf_Arguments (wt_Function t))"
  by (simp_all add: WireToolCall_json_def field_struct)

lemma json_of_message:
  "stringIn (field ''content'' (json_of (RespMessage_json m))) =
     (case rm_Content m of None \<Rightarrow> [] | Some c \<Rightarrow> sanitize c)"
  "elements (field ''tool_calls'' (json_of (RespMessage_json m))) =
     map (\<lambda>t. json_of (WireToolCall_json t)) (rm_ToolCalls m)"
  by (simp_all add: RespMessage_json_def field_struct comp_def) (simp add: elements_def)

lemma json_of_delta:
  "field ''delta'' (json_of (Choice_json c)) =
     (case ch_Delta c of None \<Rightarrow> JNull | Some m \<Rightarrow> json_of (RespMessage_json m))"
  by (auto simp: Choice_json_def field_struct omitNil_def split: option.split)

lemma json_of_choices:
  "elements (field ''choices'' (json_of (ChatCompletion_json cc))) =
     map (\<lambda>c. json_of (Choice_json c)) (cc_Choices cc)"
  by (auto simp: ChatCompletion_json_def field_struct omitNil_def comp_def split: option.split)

lemma chunkContent_ChatBody:
  "chunkContent (bodyText (ChatBody cc)) =
     concat (map (\<lambda>c. case ch_Delta c of None \<Rightarrow> [] | Some m \<Rightarrow>
       (case rm_Content m of None \<Rightarrow> [] | Some x \<Rightarrow> sanitize x)) (cc_Choices cc))"
proof -
  have "stringIn (field ''content'' JNull) = []" by (simp add: field_def stringIn_def)
  then have "stringIn (field ''content'' (field ''delta'' (json_of (Choice_json c)))) =
      (case ch_Delta c of None \<Rightarrow> [] | Some m \<Rightarrow>
        (case rm_Content m of None \<Rightarrow> [] | Some x \<Rightarrow> sanitize x))" for c
    by (simp add: json_of_delta json_of_message split: option.split)
  then show ?thesis
    unfolding chunkContent_def decoded_ChatBody json_of_choices by (simp add: comp_def)
qed

abbreviation wireCall :: "WireToolCall \<Rightarrow> gostring \<times> gostring \<times> gostring" where
  "wireCall t \<equiv> (sanitize (wt_ID t), sanitize (wf_Name (wt_Function t)), sanitize (wf_Arguments (wt_Function t)))"

lemma chunkCalls_ChatBody:
  "chunkCalls (bodyText (ChatBody cc)) =
     concat (map (\<lambda>c. case ch_Delta c of None \<Rightarrow> [] | Some m \<Rightarrow> map wireCall (rm_ToolCalls m)) (cc_Choices cc))"
proof -
  have "elements (field ''tool_calls'' JNull) = []" by (simp add: field_def elements_def)
  then have "map (\<lambda>t. (stringIn (field ''id'' t), stringIn (field ''name'' (field ''function'' t)),
         stringIn (field ''arguments'' (field ''function'' t))))
       (elements (field ''tool_calls'' (field ''delta'' (json_of (Choice_json c))))) =
      (case ch_Delta c of None \<Rightarrow> [] | Some m \<Rightarrow> map wireCall (rm_ToolCalls m))" for c
    by (simp add: json_of_delta json_of_message json_of_call split: option.split)
  then show ?thesis
    unfolding chunkCalls_def decoded_ChatBody json_of_choices by (simp add: comp_def)
qed

text \<open>No JSON object is the end marker.\<close>

lemma marshalled_object:
  "rawless (GStruct kvs) \<Longrightarrow> \<exists>t. marshalled (GStruct kvs) = CHR ''{'' # t"
  "rawless (GMap kvs) \<Longrightarrow> \<exists>t. marshalled (GMap kvs) = CHR ''{'' # t"
  using marshal_encodes [of "GStruct kvs"] marshal_encodes [of "GMap kvs"]
  by (auto simp: marshalled_def objectText_def)

text \<open>Chat chunks and headers: what a successful chat stream is made of before its end marker.\<close>

fun chatWrite :: "emission \<Rightarrow> bool" where
  "chatWrite (Event (ChatBody cc)) = True"
| "chatWrite (Header k v) = True"
| "chatWrite _ = False"

fun_cases chatWriteE: "chatWrite w"

lemma chatWrite_streaming: "chatWrite w \<Longrightarrow> streaming w"
  by (elim chatWriteE) (simp_all add: streaming_def)

lemma collect_deltas:
  "concat (map (\<lambda>c. case ch_Delta c of None \<Rightarrow> [] | Some m \<Rightarrow>
      (case rm_Content m of None \<Rightarrow> [] | Some x \<Rightarrow> sanitize x)) cs) =
   concat (map sanitize (List.map_filter rm_Content (List.map_filter ch_Delta cs)))"
  "concat (map (\<lambda>c. case ch_Delta c of None \<Rightarrow> [] | Some m \<Rightarrow> map wireCall (rm_ToolCalls m)) cs) =
   map wireCall (concat (map rm_ToolCalls (List.map_filter ch_Delta cs)))"
  by (induction cs) (auto simp: map_filter_simps split: option.split)

lemma chatWrite_client:
  assumes "chatWrite w"
  shows "list_all (\<lambda>e. e \<noteq> ''[DONE]'') (payloads [w])"
    and "concat (map chunkContent (payloads [w])) =
      concat (map sanitize (List.map_filter rm_Content (sseDeltas [w])))"
    and "concat (map chunkCalls (payloads [w])) = map wireCall (sseCalls [w])"
proof -
  consider cc where "w = Event (ChatBody cc)" | k v where "w = Header k v"
    using assms by (elim chatWriteE)
  then have "list_all (\<lambda>e. e \<noteq> ''[DONE]'') (payloads [w]) \<and>
    concat (map chunkContent (payloads [w])) =
      concat (map sanitize (List.map_filter rm_Content (sseDeltas [w]))) \<and>
    concat (map chunkCalls (payloads [w])) = map wireCall (sseCalls [w])"
  proof cases
    case 1
    obtain kvs where "ChatCompletion_json cc = GStruct kvs" by (simp add: ChatCompletion_json_def)
    then obtain t where "bodyText (ChatBody cc) = CHR ''{'' # t"
      using marshalled_object(1) [of kvs] rawless_responses(2) [of cc] by auto
    moreover have "chunkContent (bodyText (ChatBody cc)) =
        concat (map sanitize (List.map_filter rm_Content (List.map_filter ch_Delta (cc_Choices cc))))"
      by (simp only: chunkContent_ChatBody collect_deltas)
    moreover have "chunkCalls (bodyText (ChatBody cc)) =
        map wireCall (concat (map rm_ToolCalls (List.map_filter ch_Delta (cc_Choices cc))))"
      by (simp only: chunkCalls_ChatBody collect_deltas)
    ultimately show ?thesis by (simp add: 1 sseDeltas_def sseCalls_def del: bodyText.simps)
  qed (simp add: sseDeltas_def sseCalls_def map_filter_simps)
  then show "list_all (\<lambda>e. e \<noteq> ''[DONE]'') (payloads [w])"
    and "concat (map chunkContent (payloads [w])) =
      concat (map sanitize (List.map_filter rm_Content (sseDeltas [w])))"
    and "concat (map chunkCalls (payloads [w])) = map wireCall (sseCalls [w])" by blast+
qed

lemma sseDeltas_append: "sseDeltas (a @ b) = sseDeltas a @ sseDeltas b"
  by (simp add: sseDeltas_def)

lemma chatWrite_payloads:
  "list_all chatWrite ws \<Longrightarrow> list_all (\<lambda>e. e \<noteq> ''[DONE]'') (payloads ws)"
  "list_all chatWrite ws \<Longrightarrow> concat (map chunkContent (payloads ws)) =
      concat (map sanitize (List.map_filter rm_Content (sseDeltas ws)))"
  "list_all chatWrite ws \<Longrightarrow> concat (map chunkCalls (payloads ws)) = map wireCall (sseCalls ws)"
proof (induction ws)
  case (Cons w ws)
  have split: "payloads (w # ws) = payloads [w] @ payloads ws" "sseDeltas (w # ws) = sseDeltas [w] @ sseDeltas ws"
    "sseCalls (w # ws) = sseCalls [w] @ sseCalls ws"
    using payloads_append [of "[w]" ws] sseDeltas_append [of "[w]" ws] sse_append(2) [of "[w]" ws] by simp_all
  { case 1 then show ?case using Cons.IH(1) chatWrite_client(1) [of w] by (simp add: split(1) del: payloads.simps)
  next case 2 then show ?case using Cons.IH(2) chatWrite_client(2) [of w] by (simp add: split(1,2) del: payloads.simps)
  next case 3 then show ?case using Cons.IH(3) chatWrite_client(3) [of w] by (simp add: split(1,3) del: payloads.simps) }
qed (simp_all add: sseDeltas_def map_filter_simps)

lemma client_of_stream:
  assumes "list_all chatWrite ws"
  shows "clientEvents (bodyBytes (ws @ [DoneEvent])) = payloads ws"
    and "clientContent (bodyBytes (ws @ [DoneEvent])) =
      concat (map sanitize (List.map_filter rm_Content (sseDeltas ws)))"
    and "clientCalls (bodyBytes (ws @ [DoneEvent])) = map wireCall (sseCalls ws)"
    and "sseEvents (bodyBytes (ws @ [DoneEvent])) = payloads ws @ [''[DONE]'']"
proof -
  have "list_all streaming (ws @ [DoneEvent])"
    using assms chatWrite_streaming by (auto simp: list_all_iff streaming_def)
  then show ev: "sseEvents (bodyBytes (ws @ [DoneEvent])) = payloads ws @ [''[DONE]'']"
    by (simp add: sseEvents_payloads)
  note p = chatWrite_payloads [OF assms]
  show cl: "clientEvents (bodyBytes (ws @ [DoneEvent])) = payloads ws"
    using p(1) by (simp add: clientEvents_def ev takeWhile_append list_all_iff)
  show "clientContent (bodyBytes (ws @ [DoneEvent])) =
      concat (map sanitize (List.map_filter rm_Content (sseDeltas ws)))"
    "clientCalls (bodyBytes (ws @ [DoneEvent])) = map wireCall (sseCalls ws)"
    by (simp_all only: clientContent_def clientCalls_def cl p(2,3))
qed

text \<open>A successful chat stream, up to its end marker.\<close>

lemma chatWrite_chunks [simp]:
  "chatWrite (chatChunk sv cx m r)" "list_all chatWrite sseHeaders" "list_all chatWrite (deltaChunks sv cx d)"
  "list_all chatWrite (usageEvents sv cx u res)" "chatWrite (roleChunk sv cx)"
  by (auto simp: chatChunk_def sseHeaders_def deltaChunks_def usageEvents_def roleChunk_def split: option.split prod.split)

lemma contents_deltaChunks:
  "List.map_filter rm_Content (sseDeltas (concat (map (deltaChunks sv cx) ds))) =
     filter (\<lambda>tx. tx \<noteq> []) (map fst ds)"
proof (induction ds)
  case (Cons d ds)
  have "List.map_filter rm_Content (sseDeltas (deltaChunks sv cx d)) = filter (\<lambda>tx. tx \<noteq> []) [fst d]"
    by (cases d) (simp add: deltaChunks_def sseDeltas_def chatChunk_def map_filter_simps split: option.split)
  then show ?case using Cons by (simp add: sseDeltas_append)
qed (simp add: sseDeltas_def map_filter_simps)

lemma streamChat_chunks:
  assumes "cx_flusher cx" "Generate rt (sv_gen sv) req = (ds, Some (Inr res))"
  obtains ws where "streamChat rt sv cx req u = ws @ [DoneEvent]" "list_all chatWrite ws"
    "List.map_filter rm_Content (sseDeltas ws) = filter (\<lambda>tx. tx \<noteq> []) (map fst ds)"
    "sseCalls ws = toolCalls (List.map_filter snd ds)"
proof (rule that)
  let ?ws = "sseHeaders @ [roleChunk sv cx] @ concat (map (deltaChunks sv cx) ds) @
      [chatChunk sv cx noMessage (Some (r_FinishReason res))] @ usageEvents sv cx u res"
  show s: "streamChat rt sv cx req u = ?ws @ [DoneEvent]" using streamChat_success [OF assms] by simp
  show "list_all chatWrite ?ws" by (auto simp: list_all_iff) (metis chatWrite_chunks list_all_iff)+
  have "sseDeltas sseHeaders = []" "sseDeltas (usageEvents sv cx u res) = []"
    "List.map_filter rm_Content (sseDeltas [roleChunk sv cx]) = []"
    "List.map_filter rm_Content (sseDeltas [chatChunk sv cx noMessage r]) = []" for r
    by (simp_all add: sseDeltas_def sseHeaders_def usageEvents_def roleChunk_def chatChunk_def map_filter_simps)
  then show "List.map_filter rm_Content (sseDeltas ?ws) = filter (\<lambda>tx. tx \<noteq> []) (map fst ds)"
    by (simp add: sseDeltas_append contents_deltaChunks del: append_Cons)
  show "sseCalls ?ws = toolCalls (List.map_filter snd ds)"
    using streamChat_view(2) [OF assms, of u]
    unfolding s sse_append(2) [of ?ws] chatDeltas_result Generate_deltas_result by (simp only: sse_end append_Nil2)
qed

text \<open>What the client reads of a successful stream whose text is well-formed.\<close>

lemma client_of_Generate:
  assumes "cx_flusher cx" "snd (Generate rt (sv_gen sv) req) = Some (Inr res)" "ValidString (r_Text res)"
  shows "clientContent (bodyBytes (streamChat rt sv cx req u)) = r_Text res"
    and "clientCalls (bodyBytes (streamChat rt sv cx req u)) = map wireCall (toolCalls (r_ToolCalls res))"
    and "sseEvents (bodyBytes (streamChat rt sv cx req u)) =
      clientEvents (bodyBytes (streamChat rt sv cx req u)) @ [''[DONE]'']"
proof -
  obtain ds where g: "Generate rt (sv_gen sv) req = (ds, Some (Inr res))"
    using assms(2) by (metis prod.collapse)
  obtain ws where ws: "streamChat rt sv cx req u = ws @ [DoneEvent]" "list_all chatWrite ws"
      "List.map_filter rm_Content (sseDeltas ws) = filter (\<lambda>tx. tx \<noteq> []) (map fst ds)"
      "sseCalls ws = toolCalls (List.map_filter snd ds)"
    using streamChat_chunks [OF assms(1) g] .
  have "concat (map fst ds) = r_Text res" "list_all ValidString (map fst ds)"
    using chat.run_deltas_valid [OF g assms(3)] by simp_all
  moreover from this(2) have "map sanitize (filter (\<lambda>tx. tx \<noteq> []) (map fst ds)) = filter (\<lambda>tx. tx \<noteq> []) (map fst ds)"
    by (intro map_idI) (auto simp: list_all_iff sanitize_valid)
  ultimately have "concat (map sanitize (filter (\<lambda>tx. tx \<noteq> []) (map fst ds))) = r_Text res"
    using concat_nonempty [of "map fst ds"] by simp
  moreover have "List.map_filter snd ds = r_ToolCalls res" using Generate_deltas_result [OF g] by simp
  ultimately show "clientContent (bodyBytes (streamChat rt sv cx req u)) = r_Text res"
    "clientCalls (bodyBytes (streamChat rt sv cx req u)) = map wireCall (toolCalls (r_ToolCalls res))"
    "sseEvents (bodyBytes (streamChat rt sv cx req u)) =
      clientEvents (bodyBytes (streamChat rt sv cx req u)) @ [''[DONE]'']"
    by (simp_all only: ws client_of_stream [OF ws(2)])
qed

subsection \<open>The properties of the bytes\<close>

text \<open>
  C7: a client that splits the bytes of a successful chat stream into events and decodes
  their JSON collects the text and the tool calls of the result, byte for byte where they are
  well-formed UTF-8, and the events end with one \<open>[DONE]\<close>: neither the quoting nor the framing
  loses or splits anything, whatever the text contains.
\<close>

theorem stream_bytes_decode:
  assumes "cx_flusher cx" "snd (Generate rt (sv_gen sv) req) = Some (Inr res)" "ValidString (r_Text res)"
  shows "clientContent (bodyBytes (streamChat rt sv cx req u)) = r_Text res \<and>
    clientCalls (bodyBytes (streamChat rt sv cx req u)) =
      map (\<lambda>c. (sanitize (tc_ID c), sanitize (tc_Name c), sanitize (tc_ArgumentsJSON c))) (r_ToolCalls res) \<and>
    sseEvents (bodyBytes (streamChat rt sv cx req u)) =
      clientEvents (bodyBytes (streamChat rt sv cx req u)) @ [''[DONE]'']"
  using client_of_Generate [OF assms] by (simp add: toolCalls_def)

lemma stream_bytes_decode_witness:
  "clientContent (bodyBytes (streamChat sampleRt sampleServer sampleConn sampleReq True)) =
     r_Text (chatResult sampleFormat sampleEvents sampleStats) \<and>
   clientCalls (bodyBytes (streamChat sampleRt sampleServer sampleConn sampleReq True)) =
     map (\<lambda>c. (sanitize (tc_ID c), sanitize (tc_Name c), sanitize (tc_ArgumentsJSON c)))
       (r_ToolCalls (chatResult sampleFormat sampleEvents sampleStats)) \<and>
   sseEvents (bodyBytes (streamChat sampleRt sampleServer sampleConn sampleReq True)) =
     clientEvents (bodyBytes (streamChat sampleRt sampleServer sampleConn sampleReq True)) @ [''[DONE]'']"
proof (rule stream_bytes_decode [OF _ sample_server_Generate])
  show "ValidString (r_Text (chatResult sampleFormat sampleEvents sampleStats))"
    unfolding sample_text by (rule sample_valid)
qed (simp add: sampleConn_def)

end
