(* ===== verification/Strconv.thy ===== *)
theory Strconv
  imports Decimal Float32
begin

section \<open>Go's \<open>strconv\<close>\<close>

text \<open>
  The conversions behind command-line flags and JSON numbers, as the standard library defines
  them: \<open>ParseInt\<close> with base 0, \<open>ParseBool\<close>, \<open>ParseFloat\<close> with 64 bits, and \<open>FormatFloat\<close> with
  format \<open>f\<close> and four digits.  \<open>None\<close> is a syntax or a range error; every caller fails on either.
\<close>

subsection \<open>Characters\<close>

definition lowerByte :: "char \<Rightarrow> char" where
  "lowerByte c = (if 65 \<le> bv c \<and> bv c \<le> 90 then byte (bv c + 32) else c)"

definition isLowerLetter :: "char \<Rightarrow> bool" where
  "isLowerLetter c = (97 \<le> bv c \<and> bv c \<le> 122)"

definition digitVal :: "char \<Rightarrow> nat option" where
  "digitVal c =
     (if isDigit c then Some (bv c - 48)
      else if isLowerLetter (lowerByte c) then Some (bv (lowerByte c) - 87)
      else None)"

definition isUnderscore :: "char \<Rightarrow> bool" where
  "isUnderscore c = (c = CHR ''_'')"

text \<open>The digit a base accepts.\<close>

definition digitIn :: "nat \<Rightarrow> char \<Rightarrow> nat option" where
  "digitIn base c =
     (case digitVal c of Some d \<Rightarrow> if d < base then Some d else None | None \<Rightarrow> None)"

text \<open>An optional sign: whether it is a minus, and the rest.\<close>

definition signed :: "gostring \<Rightarrow> bool \<times> gostring" where
  "signed s =
     (case s of
        [] \<Rightarrow> (False, [])
      | c # r \<Rightarrow> if c = CHR ''-'' then (True, r) else if c = CHR ''+'' then (False, r) else (False, s))"

text \<open>
  \<open>underscoreOK\<close>: an underscore stands between digits, or between a base prefix and a digit.  The
  state says whether the last character was a digit, an underscore, or neither.
\<close>

datatype saw = SawDigit | SawUnderscore | SawOther

fun underscoreScan :: "bool \<Rightarrow> saw \<Rightarrow> gostring \<Rightarrow> bool" where
  "underscoreScan hex st [] = (st \<noteq> SawUnderscore)"
| "underscoreScan hex st (c # s) =
     (if isDigit c \<or> hex \<and> digitIn 16 c \<noteq> None then underscoreScan hex SawDigit s
      else if isUnderscore c then st = SawDigit \<and> underscoreScan hex SawUnderscore s
      else st \<noteq> SawUnderscore \<and> underscoreScan hex SawOther s)"

definition basePrefix :: "gostring \<Rightarrow> char option" where
  "basePrefix s =
     (case s of
        z # p # r \<Rightarrow> if z = CHR ''0'' then Some (lowerByte p) else None
      | _ \<Rightarrow> None)"

definition underscoreOK :: "gostring \<Rightarrow> bool" where
  "underscoreOK s =
     (let s = snd (signed s); p = basePrefix s in
      if p = Some (CHR ''b'') \<or> p = Some (CHR ''o'') \<or> p = Some (CHR ''x'')
      then underscoreScan (p = Some (CHR ''x'')) SawDigit (drop 2 s)
      else underscoreScan False SawOther s)"

subsection \<open>Integers\<close>

text \<open>The base and the digits of an unsigned literal.\<close>

definition splitBase :: "gostring \<Rightarrow> nat \<times> gostring" where
  "splitBase s =
     (let p = (if 3 \<le> length s then basePrefix s else None) in
      if p = Some (CHR ''b'') then (2, drop 2 s)
      else if p = Some (CHR ''o'') then (8, drop 2 s)
      else if p = Some (CHR ''x'') then (16, drop 2 s)
      else if s \<noteq> [] \<and> hd s = CHR ''0'' then (8, tl s)
      else (10, s))"

fun digitsIn :: "nat \<Rightarrow> nat \<Rightarrow> gostring \<Rightarrow> nat option" where
  "digitsIn base n [] = Some n"
| "digitsIn base n (c # s) =
     (if isUnderscore c then digitsIn base n s
      else case digitIn base c of None \<Rightarrow> None | Some d \<Rightarrow> digitsIn base (n * base + d) s)"

text \<open>\<open>ParseInt(s, 0, 64)\<close>.\<close>

definition parseInt0 :: "gostring \<Rightarrow> int option" where
  "parseInt0 s =
     (let (neg, u) = signed s; (base, ds) = splitBase u in
      if u = [] then None
      else case digitsIn base 0 ds of
        None \<Rightarrow> None
      | Some n \<Rightarrow>
          let i = (if neg then - int n else int n) in
          if list_ex isUnderscore ds \<and> \<not> underscoreOK u then None
          else if - (2 ^ 63) \<le> i \<and> i \<le> MaxInt then Some i else None)"

definition parseBool :: "gostring \<Rightarrow> bool option" where
  "parseBool s =
     (if s \<in> {''1'', ''t'', ''T'', ''true'', ''TRUE'', ''True''} then Some True
      else if s \<in> {''0'', ''f'', ''F'', ''false'', ''FALSE'', ''False''} then Some False
      else None)"

subsection \<open>Floats\<close>

text \<open>\<open>a / b\<close> rounded to the nearest integer, ties to even.\<close>

definition roundDiv :: "nat \<Rightarrow> nat \<Rightarrow> nat" where
  "roundDiv a b =
     (let q = a div b; r = a mod b in if b < 2 * r \<or> 2 * r = b \<and> odd q then q + 1 else q)"

fun bitLen :: "nat \<Rightarrow> nat" where
  "bitLen n = (if n = 0 then 0 else bitLen (n div 2) + 1)"

declare bitLen.simps [simp del]

lemma bitLen_numerals [simp]:
  "bitLen 0 = 0" "bitLen 1 = 1" "bitLen (Suc 0) = 1"
  "bitLen (numeral (num.Bit0 k)) = bitLen (numeral k) + 1"
  "bitLen (numeral (num.Bit1 k)) = bitLen (numeral k) + 1"
  by (subst bitLen.simps, simp add: bitLen.simps [of 0])+

text \<open>
  The bit pattern nearest to the magnitude \<open>a / b\<close>.  With \<open>t\<close> the weight of its last place, counted
  from the smallest double \<open>2 ^ - 1074\<close>, the exponent and the fraction field together are
  \<open>t * 2 ^ 52\<close> plus the rounded mantissa: below the normal range \<open>t\<close> is 0, and a mantissa that
  rounds up to a power of two carries into the exponent.
\<close>

definition ratBits :: "nat \<Rightarrow> nat \<Rightarrow> nat" where
  "ratBits a b =
     (let a = a * 2 ^ 1074; t = bitLen (a div b) - 53 in t * 2 ^ 52 + roundDiv a (b * 2 ^ t))"

definition inf64 :: nat where
  "inf64 = 2047 * 2 ^ 52"

definition signBit :: "bool \<Rightarrow> nat" where
  "signBit neg = (if neg then 2 ^ 63 else 0)"

text \<open>
  The mantissa: its digits as a number, the number of digits after the point, whether there was a
  digit, and the rest.
\<close>

fun mantissa :: "nat \<Rightarrow> bool \<Rightarrow> nat \<Rightarrow> nat \<Rightarrow> bool \<Rightarrow> gostring \<Rightarrow> nat \<times> nat \<times> bool \<times> gostring" where
  "mantissa base dot m fr dg [] = (m, fr, dg, [])"
| "mantissa base dot m fr dg (c # s) =
     (if isUnderscore c then mantissa base dot m fr dg s
      else if c = CHR ''.'' then (if dot then (m, fr, dg, c # s) else mantissa base True m fr dg s)
      else case digitIn base c of
        Some d \<Rightarrow> mantissa base dot (m * base + d) (if dot then fr + 1 else fr) True s
      | None \<Rightarrow> (m, fr, dg, c # s))"

text \<open>The digits of an exponent; the value stops growing at five digits.\<close>

fun expDigits :: "nat \<Rightarrow> gostring \<Rightarrow> nat \<times> gostring" where
  "expDigits e [] = (e, [])"
| "expDigits e (c # s) =
     (if isUnderscore c then expDigits e s
      else if isDigit c then expDigits (if e < 10000 then e * 10 + (bv c - 48) else e) s
      else (e, c # s))"

definition exponent :: "char \<Rightarrow> gostring \<Rightarrow> int option" where
  "exponent mark s =
     (case s of
        [] \<Rightarrow> if mark = CHR ''p'' then None else Some 0
      | c # r \<Rightarrow>
          let (neg, r) = signed r; (e, r') = expDigits 0 r in
          if lowerByte c = mark \<and> r \<noteq> [] \<and> isDigit (hd r) \<and> r' = []
          then Some (if neg then - int e else int e) else None)"

text \<open>\<open>m * b ^ x\<close> as a quotient of naturals, and its bit pattern unless it is out of range.\<close>

definition scaledBits :: "nat \<Rightarrow> nat \<Rightarrow> int \<Rightarrow> nat option" where
  "scaledBits m b x =
     (let r = (if 0 \<le> x then ratBits (m * b ^ nat x) 1 else ratBits m (b ^ nat (- x))) in
      if r < inf64 then Some r else None)"

definition parseFloat :: "gostring \<Rightarrow> float64 option" where
  "parseFloat s =
     (let (neg, u) = signed s; w = map lowerByte u in
      if w = ''inf'' \<or> w = ''infinity'' then Some (word_of_nat (signBit neg + inf64))
      else if map lowerByte s = ''nan'' then Some (word_of_nat (inf64 + 2 ^ 51 + 1))
      else
        let hex = (3 \<le> length u \<and> basePrefix u = Some (CHR ''x''));
            (m, fr, dg, r) =
              (if hex then mantissa 16 False 0 0 False (drop 2 u) else mantissa 10 False 0 0 False u) in
        if \<not> dg \<or> list_ex isUnderscore s \<and> \<not> underscoreOK s then None
        else case exponent (if hex then CHR ''p'' else CHR ''e'') r of
          None \<Rightarrow> None
        | Some e \<Rightarrow>
            map_option (\<lambda>bits. word_of_nat (signBit neg + bits))
              (if hex then scaledBits m 2 (e - 4 * int fr) else scaledBits m 10 (e - int fr)))"

text \<open>\<open>FormatFloat(x, 'f', 4, 64)\<close>: the exact value rounded to four decimals, ties to even.\<close>

definition tenThousandths :: "float64 \<Rightarrow> nat" where
  "tenThousandths x = roundDiv (mant x * 2 ^ pexp x * 10000) (2 ^ 1075)"

definition formatFloat4 :: "float64 \<Rightarrow> gostring" where
  "formatFloat4 x =
     (if expField x = 2047 \<and> fracField x \<noteq> 0 then ''NaN''
      else if expField x = 2047 then (if 2 ^ 63 \<le> unat x then ''-Inf'' else ''+Inf'')
      else (if 2 ^ 63 \<le> unat x then ''-'' else []) @
        natDec (tenThousandths x div 10000) @ ''.'' @ padded 4 (tenThousandths x mod 10000))"

subsection \<open>Facts\<close>

lemma roundDiv_le: "0 < b \<Longrightarrow> a \<le> n * b \<Longrightarrow> roundDiv a b \<le> n"
proof -
  assume b: "0 < b" "a \<le> n * b"
  show ?thesis
  proof (cases "a = n * b")
    case True
    then show ?thesis using b(1) by (simp add: roundDiv_def Let_def)
  next
    case False
    then have "a div b < n" using b by (simp add: less_mult_imp_div_less)
    then show ?thesis by (simp add: roundDiv_def Let_def)
  qed
qed

text \<open>Rounding is off by at most one half.\<close>

lemma roundDiv_near:
  assumes "0 < b"
  shows "2 * a \<le> (2 * roundDiv a b + 1) * b" and "(2 * roundDiv a b) * b \<le> 2 * a + b"
proof -
  let ?q = "a div b" and ?r = "a mod b"
  define p where "p = ?q * b"
  have a: "a = p + ?r" by (simp add: p_def)
  have r: "?r < b" using assms by simp
  have q: "(2 * ?q + 1) * b = 2 * p + b" "(2 * ?q) * b = 2 * p"
    "(2 * (?q + 1) + 1) * b = 2 * p + 3 * b" "(2 * (?q + 1)) * b = 2 * p + 2 * b"
    by (simp_all add: p_def algebra_simps)
  have "2 * a \<le> (2 * roundDiv a b + 1) * b \<and> (2 * roundDiv a b) * b \<le> 2 * a + b"
  proof (cases "b < 2 * ?r \<or> 2 * ?r = b \<and> odd ?q")
    case True
    then have rd: "roundDiv a b = ?q + 1" by (simp add: roundDiv_def Let_def)
    have "b \<le> 2 * ?r" using True by auto
    then show ?thesis unfolding rd q using a r by linarith
  next
    case False
    then have rd: "roundDiv a b = ?q" by (simp add: roundDiv_def Let_def)
    have "2 * ?r \<le> b" using False by auto
    then show ?thesis unfolding rd q using a r by linarith
  qed
  then show "2 * a \<le> (2 * roundDiv a b + 1) * b" "(2 * roundDiv a b) * b \<le> 2 * a + b" by blast+
qed

lemma bitLen_less: "n < 2 ^ bitLen n"
proof (induction n rule: bitLen.induct)
  case (1 n)
  then show ?case by (subst bitLen.simps) auto
qed

lemma bitLen_le: "n < 2 ^ k \<Longrightarrow> bitLen n \<le> k"
proof (induction n arbitrary: k rule: bitLen.induct)
  case (1 n)
  show ?case
  proof (cases "n = 0")
    case False
    then obtain j where k: "k = Suc j" using 1(2) by (cases k) auto
    then have "bitLen (n div 2) \<le> j" using 1 False by auto
    then show ?thesis using False k by (subst bitLen.simps) simp
  qed simp
qed

text \<open>A quotient of at most one is read as a double of at most one.\<close>

lemma ratBits_unit:
  assumes "0 < b" "a \<le> b"
  shows "ratBits a b \<le> 1023 * 2 ^ 52"
proof -
  define A where "A = a * 2 ^ 1074"
  define t where "t = bitLen (A div b) - 53"
  have A: "A \<le> b * 2 ^ 1074" using assms(2) by (simp add: A_def)
  have "A div b \<le> 2 ^ 1074" using div_le_mono [OF A, of b] assms(1) by simp
  then have "A div b < 2 ^ 1075" by (rule le_less_trans) simp
  then have "t \<le> 1022" using bitLen_le unfolding t_def by fastforce
  have eq: "ratBits a b = t * 2 ^ 52 + roundDiv A (b * 2 ^ t)"
    by (simp only: ratBits_def A_def t_def Let_def)
  show ?thesis
  proof (cases "t = 1022")
    case True
    have "A \<le> 2 ^ 52 * (b * 2 ^ t)" using A unfolding True by (simp only: power_add [symmetric] mult.commute mult.left_commute) simp
    then have "roundDiv A (b * 2 ^ t) \<le> 2 ^ 52" by (rule roundDiv_le [rotated]) (use assms in simp)
    then show ?thesis unfolding eq True by simp
  next
    case False
    have "A div b < 2 ^ (t + 53)"
      using bitLen_less [of "A div b"] by (rule less_le_trans) (simp add: t_def power_increasing)
    then have "A < b * 2 ^ (t + 53)" using assms(1) by (simp add: div_less_iff_less_mult mult.commute)
    then have "A \<le> 2 ^ 53 * (b * 2 ^ t)" by (simp add: power_add mult.commute mult.left_commute)
    then have "roundDiv A (b * 2 ^ t) \<le> 2 ^ 53" by (rule roundDiv_le [rotated]) (use assms in simp)
    moreover have "t * 2 ^ 52 \<le> 1021 * 2 ^ 52" using False \<open>t \<le> 1022\<close> by simp
    ultimately show ?thesis unfolding eq by simp
  qed
qed

lemma isDigit_digitIn: "isDigit c \<Longrightarrow> digitIn 10 c = Some (bv c - 48)"
  by (auto simp: digitIn_def digitVal_def isDigit_def)

lemma isDigit_not_underscore: "isDigit c \<Longrightarrow> \<not> isUnderscore c"
  by (auto simp: isUnderscore_def isDigit_def)

lemma digitsIn_decValue:
  "list_all isDigit s \<Longrightarrow> digitsIn 10 n s = Some (n * 10 ^ length s + decValue s)"
  by (induction s arbitrary: n) (simp_all add: isDigit_digitIn isDigit_not_underscore algebra_simps)

lemma natDec_leading: "0 < n \<Longrightarrow> hd (natDec n) \<noteq> CHR ''0''"
proof (induction n rule: natDec.induct)
  case (1 n)
  show ?case
  proof (cases "n < 10")
    case True
    then have "bv (byte (48 + n)) \<noteq> bv (CHR ''0'')" using 1(2) by (subst bv_byte) auto
    then have "byte (48 + n) \<noteq> CHR ''0''" by metis
    then show ?thesis using True by (subst natDec.simps) simp
  next
    case False
    then show ?thesis using 1(1) by (subst natDec.simps) (simp add: hd_append)
  qed
qed

lemma natDec_splitBase: "digitsIn (fst (splitBase (natDec n))) 0 (snd (splitBase (natDec n))) = Some n"
proof (cases "n = 0")
  case True
  have "byte 48 = CHR ''0''" using bv_inject [of "byte 48" "CHR ''0''"] by (simp add: bv_byte)
  then show ?thesis using True by (simp add: splitBase_def natDec.simps [of 0])
next
  case False
  then have "hd (natDec n) \<noteq> CHR ''0''" using natDec_leading by simp
  then have "splitBase (natDec n) = (10, natDec n)"
    by (auto simp: splitBase_def basePrefix_def split: list.split)
  then show ?thesis by (simp add: digitsIn_decValue natDec_isDigit decValue_natDec)
qed

lemma set_tl_subset: "set (tl xs) \<subseteq> set xs"
  by (cases xs) auto

lemma natDec_splitBase_digits: "list_ex isUnderscore (snd (splitBase (natDec n))) = False"
proof -
  have "set (snd (splitBase (natDec n))) \<subseteq> set (natDec n)"
    by (simp add: splitBase_def Let_def set_drop_subset set_tl_subset)
  then show ?thesis
    using natDec_isDigit [of n] isDigit_not_underscore by (auto simp: list_ex_iff list_all_iff)
qed

lemma natDec_signed: "signed (natDec n) = (False, natDec n)"
proof -
  have "\<not> isDigit (CHR ''-'')" "\<not> isDigit (CHR ''+'')" by (simp_all add: isDigit_def)
  then have "hd (natDec n) \<noteq> CHR ''-''" "hd (natDec n) \<noteq> CHR ''+''" using natDec_hd [of n] by metis+
  then show ?thesis by (cases "natDec n") (simp_all add: signed_def)
qed

text \<open>What \<open>Itoa\<close> prints is read back by the flags.\<close>

lemma parseInt0_itoa [roundtrips]:
  assumes "- (2 ^ 63) \<le> i" "i \<le> MaxInt"
  shows "parseInt0 (itoa i) = Some i"
proof -
  have "signed (itoa i) = (i < 0, natDec (nat \<bar>i\<bar>))"
    by (simp add: itoa_def natDec_signed) (simp add: signed_def)
  then show ?thesis
    using assms natDec_splitBase [of "nat \<bar>i\<bar>"] natDec_splitBase_digits [of "nat \<bar>i\<bar>"]
    by (simp add: parseInt0_def Let_def case_prod_unfold)
qed

text \<open>A decimal fraction \<open>0.ddd\<close> is read as a double between 0 and 1.\<close>

lemma mantissa_digits:
  "list_all isDigit ds \<Longrightarrow>
   mantissa 10 dot m fr True ds = (m * 10 ^ length ds + decValue ds, if dot then fr + length ds else fr, True, [])"
proof (induction ds arbitrary: m fr)
  case (Cons c ds)
  moreover have "c \<noteq> CHR ''.''" using Cons.prems by (auto simp: isDigit_def)
  ultimately show ?case by (simp add: isDigit_digitIn isDigit_not_underscore algebra_simps)
qed simp

lemma decValue_less: "list_all isDigit ds \<Longrightarrow> decValue ds < 10 ^ length ds"
proof (induction ds)
  case (Cons c ds)
  then have "bv c - 48 \<le> 9" "decValue ds < 10 ^ length ds" by (auto simp: isDigit_def)
  then have "(bv c - 48) * 10 ^ length ds \<le> 9 * 10 ^ length ds" by (intro mult_right_mono) simp_all
  then show ?case
    using \<open>decValue ds < 10 ^ length ds\<close> unfolding decValue.simps list.size power_Suc add_Suc_right add_0_right
    by linarith
qed simp

lemma parseFloat_fraction:
  assumes "list_all isDigit ds"
  shows "parseFloat (''0.'' @ ds) = Some (word_of_nat (ratBits (decValue ds) (10 ^ length ds)))"
proof -
  have m: "mantissa 10 False 0 0 False (''0.'' @ ds) = (decValue ds, length ds, True, [])"
    using mantissa_digits [OF assms, of True 0 0]
    by (simp add: isUnderscore_def digitIn_def digitVal_def isDigit_def)
  have "ratBits (decValue ds) (10 ^ length ds) \<le> 1023 * 2 ^ 52"
    using decValue_less [OF assms] by (intro ratBits_unit) simp_all
  then have r: "ratBits (decValue ds) (10 ^ length ds) < inf64" by (simp add: inf64_def)
  have sc: "scaledBits (decValue ds) 10 (- int (length ds)) = Some (ratBits (decValue ds) (10 ^ length ds))"
    using r by (cases "ds = []") (simp_all add: scaledBits_def)
  have u: "\<not> list_ex isUnderscore (''0.'' @ ds)"
    using assms isDigit_not_underscore by (auto simp: list_ex_iff list_all_iff isUnderscore_def)
  have sg: "signed (''0.'' @ ds) = (False, ''0.'' @ ds)" by (simp add: signed_def)
  have lo: "map lowerByte (''0.'' @ ds) = ''0.'' @ map lowerByte ds" by (simp add: lowerByte_def)
  have px: "basePrefix (''0.'' @ ds) = Some (CHR ''.'')" by (simp add: basePrefix_def lowerByte_def)
  have ex: "exponent (CHR ''e'') [] = Some 0" by (simp add: exponent_def)
  show ?thesis
    unfolding parseFloat_def sg Let_def case_prod_conv lo px
    using u by (simp only: m case_prod_conv) (simp add: ex sc signBit_def)
qed

lemma parseFloat_unit:
  assumes "list_all isDigit ds" "parseFloat (''0.'' @ ds) = Some x"
  shows "unat x \<le> unat float64_one"
proof -
  have "ratBits (decValue ds) (10 ^ length ds) \<le> 1023 * 2 ^ 52"
    using decValue_less [OF assms(1)] by (intro ratBits_unit) simp_all
  then have "unat (word_of_nat (ratBits (decValue ds) (10 ^ length ds)) :: float64) \<le> 1023 * 2 ^ 52"
    by (simp add: unsigned_of_nat take_bit_nat_eq_self)
  then show ?thesis using assms parseFloat_fraction by (simp add: float64_one_def)
qed

end
