(* ===== verification/Requests.thy ===== *)
theory Requests
  imports Wire Strconv "HOL-Library.Monad_Syntax"
begin

section \<open>The bytes of a request\<close>

text \<open>
  How a request body becomes a \<open>ChatRequest\<close> or a \<open>CompletionRequest\<close>: \<open>encoding/json\<close> driven by
  the field tags of \<open>internal/server/types.go\<close>.  A field that is absent keeps its zero value,
  \<open>null\<close> clears pointers and slices and leaves anything else, a key that occurs twice is decoded
  twice into the same field.  \<open>None\<close> is an error, which the handlers answer with 400.
\<close>

subsection \<open>Booleans, floats, pointers\<close>

definition boolInto :: "bool \<Rightarrow> json \<Rightarrow> bool option" where
  "boolInto old v = (case v of JBool b \<Rightarrow> Some b | JNull \<Rightarrow> Some old | _ \<Rightarrow> None)"

definition floatInto :: "float64 \<Rightarrow> json \<Rightarrow> float64 option" where
  "floatInto old v = (case v of JNum l \<Rightarrow> parseFloat l | JNull \<Rightarrow> Some old | _ \<Rightarrow> None)"

text \<open>A pointer is allocated if it is nil; \<open>z\<close> is the zero value it then points to.\<close>

definition pointerInto :: "('a \<Rightarrow> json \<Rightarrow> 'a option) \<Rightarrow> 'a \<Rightarrow> 'a option \<Rightarrow> json \<Rightarrow> 'a option option" where
  "pointerInto f z old v =
     (if v = JNull then Some None
      else map_option Some (f (case old of Some x \<Rightarrow> x | None \<Rightarrow> z) v))"

definition rawInto :: "gostring \<Rightarrow> gostring list \<Rightarrow> gostring" where
  "rawInto old rs = (if rs = [] then old else List.last rs)"

subsection \<open>The parts of a chat request\<close>

definition WireFunction_into :: "WireFunction \<Rightarrow> json \<Rightarrow> WireFunction option" where
  "WireFunction_into f v = do {
     ms \<leftarrow> structOf v;
     name \<leftarrow> decodeAll stringInto (wf_Name f) (fieldValues ''name'' ms);
     args \<leftarrow> decodeAll stringInto (wf_Arguments f) (fieldValues ''arguments'' ms);
     Some \<lparr>wf_Name = name, wf_Arguments = args\<rparr>
   }"

definition WireToolCall_into :: "WireToolCall \<Rightarrow> json \<Rightarrow> WireToolCall option" where
  "WireToolCall_into tc v = do {
     ms \<leftarrow> structOf v;
     i \<leftarrow> decodeAll stringInto (wt_ID tc) (fieldValues ''id'' ms);
     ty \<leftarrow> decodeAll stringInto (wt_Type tc) (fieldValues ''type'' ms);
     f \<leftarrow> decodeAll WireFunction_into (wt_Function tc) (fieldValues ''function'' ms);
     Some \<lparr>wt_ID = i, wt_Type = ty, wt_Function = f\<rparr>
   }"

definition noCall :: WireToolCall where
  "noCall = \<lparr>wt_ID = [], wt_Type = [], wt_Function = \<lparr>wf_Name = [], wf_Arguments = []\<rparr>\<rparr>"

text \<open>A message comes with the backing array of its tool calls.\<close>

definition ChatMessage_into ::
  "ChatMessage \<times> WireToolCall list \<Rightarrow> json \<Rightarrow> (ChatMessage \<times> WireToolCall list) option" where
  "ChatMessage_into m v = do {
     ms \<leftarrow> structOf v;
     role \<leftarrow> decodeAll stringInto (cm_Role (fst m)) (fieldValues ''role'' ms);
     name \<leftarrow> decodeAll stringInto (cm_Name (fst m)) (fieldValues ''name'' ms);
     calls \<leftarrow> decodeAll (sliceInto WireToolCall_into noCall) (snd m, length (cm_ToolCalls (fst m)))
       (fieldValues ''tool_calls'' ms);
     callID \<leftarrow> decodeAll stringInto (cm_ToolCallID (fst m)) (fieldValues ''tool_call_id'' ms);
     Some (\<lparr>cm_Role = role, cm_Content = rawInto (cm_Content (fst m)) (fieldRaws ''content'' ms),
       cm_Name = name, cm_ToolCalls = sliceOf calls, cm_ToolCallID = callID\<rparr>, fst calls)
   }"

definition noChatMessage :: "ChatMessage \<times> WireToolCall list" where
  "noChatMessage = (\<lparr>cm_Role = [], cm_Content = [], cm_Name = [], cm_ToolCalls = [], cm_ToolCallID = []\<rparr>, [])"

definition FunctionDef_into :: "FunctionDef \<Rightarrow> json \<Rightarrow> FunctionDef option" where
  "FunctionDef_into f v = do {
     ms \<leftarrow> structOf v;
     name \<leftarrow> decodeAll stringInto (fd_Name f) (fieldValues ''name'' ms);
     desc \<leftarrow> decodeAll stringInto (fd_Description f) (fieldValues ''description'' ms);
     Some \<lparr>fd_Name = name, fd_Description = desc,
       fd_Parameters = rawInto (fd_Parameters f) (fieldRaws ''parameters'' ms)\<rparr>
   }"

definition Tool_into :: "Tool \<Rightarrow> json \<Rightarrow> Tool option" where
  "Tool_into t v = do {
     ms \<leftarrow> structOf v;
     ty \<leftarrow> decodeAll stringInto (to_Type t) (fieldValues ''type'' ms);
     f \<leftarrow> decodeAll FunctionDef_into (to_Function t) (fieldValues ''function'' ms);
     Some \<lparr>to_Type = ty, to_Function = f\<rparr>
   }"

definition noTool :: Tool where
  "noTool = \<lparr>to_Type = [], to_Function = \<lparr>fd_Name = [], fd_Description = [], fd_Parameters = []\<rparr>\<rparr>"

definition StreamOptions_into :: "StreamOptions \<Rightarrow> json \<Rightarrow> StreamOptions option" where
  "StreamOptions_into so v = do {
     ms \<leftarrow> structOf v;
     b \<leftarrow> decodeAll boolInto (IncludeUsage so) (fieldValues ''include_usage'' ms);
     Some \<lparr>IncludeUsage = b\<rparr>
   }"

subsection \<open>Whole requests\<close>

text \<open>Fields of a fresh request: a pointer starts as nil.\<close>

definition boolField :: "gostring \<Rightarrow> (gostring \<times> gostring \<times> json) list \<Rightarrow> bool option" where
  "boolField name ms = decodeAll boolInto False (fieldValues name ms)"

definition floatPointer :: "gostring \<Rightarrow> (gostring \<times> gostring \<times> json) list \<Rightarrow> float64 option option" where
  "floatPointer name ms = decodeAll (pointerInto floatInto 0) None (fieldValues name ms)"

definition boolPointer :: "gostring \<Rightarrow> (gostring \<times> gostring \<times> json) list \<Rightarrow> bool option option" where
  "boolPointer name ms = decodeAll (pointerInto boolInto False) None (fieldValues name ms)"

definition optionsPointer :: "(gostring \<times> gostring \<times> json) list \<Rightarrow> StreamOptions option option" where
  "optionsPointer ms =
     decodeAll (pointerInto StreamOptions_into \<lparr>IncludeUsage = False\<rparr>) None (fieldValues ''stream_options'' ms)"

definition ChatRequest_of :: "json \<Rightarrow> ChatRequest option" where
  "ChatRequest_of v = do {
     ms \<leftarrow> structOf v;
     model \<leftarrow> stringField ''model'' ms;
     messages \<leftarrow> decodeAll (sliceInto ChatMessage_into noChatMessage) ([], 0) (fieldValues ''messages'' ms);
     tools \<leftarrow> decodeAll (sliceInto Tool_into noTool) ([], 0) (fieldValues ''tools'' ms);
     stream \<leftarrow> boolField ''stream'' ms;
     options \<leftarrow> optionsPointer ms;
     maxTokens \<leftarrow> intField ''max_tokens'' ms;
     maxCompletionTokens \<leftarrow> intField ''max_completion_tokens'' ms;
     temperature \<leftarrow> floatPointer ''temperature'' ms;
     topP \<leftarrow> floatPointer ''top_p'' ms;
     ignoreEOS \<leftarrow> boolField ''ignore_eos'' ms;
     enableThinking \<leftarrow> boolPointer ''enable_thinking'' ms;
     Some \<lparr>cq_Model = model, cq_Messages = map fst (sliceOf messages), cq_Tools = sliceOf tools,
       cq_Stream = stream, cq_StreamOptions = options, cq_MaxTokens = maxTokens,
       cq_MaxCompletionTokens = maxCompletionTokens, cq_Temperature = temperature, cq_TopP = topP,
       cq_IgnoreEOS = ignoreEOS, cq_EnableThinking = enableThinking\<rparr>
   }"

definition CompletionRequest_of :: "json \<Rightarrow> CompletionRequest option" where
  "CompletionRequest_of v = do {
     ms \<leftarrow> structOf v;
     model \<leftarrow> stringField ''model'' ms;
     maxTokens \<leftarrow> intField ''max_tokens'' ms;
     temperature \<leftarrow> floatPointer ''temperature'' ms;
     topP \<leftarrow> floatPointer ''top_p'' ms;
     stream \<leftarrow> boolField ''stream'' ms;
     options \<leftarrow> optionsPointer ms;
     ignoreEOS \<leftarrow> boolField ''ignore_eos'' ms;
     Some \<lparr>tq_Model = model, tq_Prompt = rawField ''prompt'' ms, tq_MaxTokens = maxTokens,
       tq_Temperature = temperature, tq_TopP = topP, tq_Stream = stream, tq_StreamOptions = options,
       tq_IgnoreEOS = ignoreEOS\<rparr>
   }"

definition unmarshalChat :: "gostring \<Rightarrow> ChatRequest option" where
  "unmarshalChat = unmarshal ChatRequest_of"

definition unmarshalCompletion :: "gostring \<Rightarrow> CompletionRequest option" where
  "unmarshalCompletion = unmarshal CompletionRequest_of"

subsection \<open>A client's request\<close>

text \<open>The body a client writes for a conversation without tools.\<close>

definition clientMessage :: "Message \<Rightarrow> goval" where
  "clientMessage m = GStruct
     [(''role'', GStr (Role m)), (''content'', GStr (Content m)),
      (''tool_calls'', GSlice (map WireToolCall_json (toolCalls (ToolCalls m)))),
      (''tool_call_id'', GStr (ToolCallID m))]"

definition clientBody :: "gostring \<Rightarrow> Message list \<Rightarrow> bool \<Rightarrow> bool \<Rightarrow> int \<Rightarrow> gostring" where
  "clientBody model msgs stream thinks maxTokens = marshalled (GStruct
     [(''model'', GStr model), (''messages'', GSlice (map clientMessage msgs)),
      (''stream'', GBool stream), (''enable_thinking'', GBool thinks), (''max_tokens'', GInt maxTokens)])"

text \<open>JSON text is Unicode: bytes that are not UTF-8 arrive as replacement characters.\<close>

definition cleanCall :: "ToolCall \<Rightarrow> ToolCall" where
  "cleanCall tc = \<lparr>tc_ID = sanitize (tc_ID tc), tc_Name = sanitize (tc_Name tc),
     tc_ArgumentsJSON = sanitize (tc_ArgumentsJSON tc)\<rparr>"

definition cleanMessage :: "Message \<Rightarrow> Message" where
  "cleanMessage m = \<lparr>Role = sanitize (Role m), Content = sanitize (Content m),
     ToolCalls = map cleanCall (ToolCalls m), ToolCallID = sanitize (ToolCallID m)\<rparr>"

lemma request_keys [simp]:
  "lowerKey ''messages''" "lowerKey ''stream''" "lowerKey ''enable_thinking''" "lowerKey ''max_tokens''"
  "lowerKey ''tool_call_id''" "lowerKey ''tools''" "lowerKey ''stream_options''"
  "lowerKey ''max_completion_tokens''" "lowerKey ''temperature''" "lowerKey ''top_p''" "lowerKey ''ignore_eos''"
  "lowerKey ''prompt''" "lowerKey ''include_usage''"
  by (simp_all add: lowerKey_def)

lemma structOf_struct [simp]:
  "structOf (json_of (GStruct kvs)) = Some (map (\<lambda>(k, v). (quoteBody k, text_of v, json_of v)) kvs)"
  by (simp add: structOf_def json_of.simps)

lemma into_scalars [simp]:
  "stringInto old (json_of (GStr s)) = Some (sanitize s)"
  "boolInto b (json_of (GBool x)) = Some x"
  "pointerInto boolInto b' None (json_of (GBool x)) = Some (Some x)"
  by (simp_all add: stringInto_def boolInto_def pointerInto_def json_of.simps unquote_quoteBody)

lemma intInto_int: "- (2 ^ 63) \<le> i \<Longrightarrow> i \<le> MaxInt \<Longrightarrow> intInto old (json_of (GInt i)) = Some i"
  by (simp add: intInto_def json_of.simps parseInt_itoa)

lemma elemsInto_map:
  "(\<And>x. f z (g x) = Some (h x)) \<Longrightarrow> elemsInto f z [] (map g xs) = Some (map h xs)"
  by (induction xs) simp_all

lemma sliceInto_map:
  assumes "\<And>x. f z (json_of (g x)) = Some (h x)"
  shows "sliceInto f z ([], 0) (json_of (GSlice (map g xs))) = Some (map h xs, length xs)"
proof -
  have "elemsInto f z [] (map (\<lambda>x. json_of (g x)) xs) = Some (map h xs)"
    by (rule elemsInto_map) (rule assms)
  then show ?thesis by (simp add: sliceInto_def json_of.simps comp_def)
qed

lemma sliceOf_all [simp]: "sliceOf (map h xs, length xs) = map h xs"
  by (simp add: sliceOf_def)

lemma sliceOf_Nil [simp]: "sliceOf ([], 0) = []"
  by (simp add: sliceOf_def)

definition cleanWire :: "WireToolCall \<Rightarrow> WireToolCall" where
  "cleanWire t = \<lparr>wt_ID = sanitize (wt_ID t), wt_Type = sanitize (wt_Type t),
     wt_Function = \<lparr>wf_Name = sanitize (wf_Name (wt_Function t)),
       wf_Arguments = sanitize (wf_Arguments (wt_Function t))\<rparr>\<rparr>"

lemma read_function:
  "WireFunction_into f (json_of (GStruct [(''name'', GStr n), (''arguments'', GStr a)])) =
     Some \<lparr>wf_Name = sanitize n, wf_Arguments = sanitize a\<rparr>"
  by (simp add: WireFunction_into_def isField_quoted)

lemma read_call: "WireToolCall_into noCall (json_of (WireToolCall_json t)) = Some (cleanWire t)"
  by (simp add: WireToolCall_into_def WireToolCall_json_def isField_quoted read_function cleanWire_def)

lemma read_calls:
  "sliceInto WireToolCall_into noCall ([], 0) (json_of (GSlice (map WireToolCall_json ts))) =
     Some (map cleanWire ts, length ts)"
  by (rule sliceInto_map) (rule read_call)

text \<open>The message the server reads, before its content is decoded.\<close>

definition readMessage :: "Message \<Rightarrow> ChatMessage" where
  "readMessage m = \<lparr>cm_Role = sanitize (Role m), cm_Content = quote (Content m), cm_Name = [],
     cm_ToolCalls = map cleanWire (toolCalls (ToolCalls m)), cm_ToolCallID = sanitize (ToolCallID m)\<rparr>"

lemma read_message:
  "ChatMessage_into noChatMessage (json_of (clientMessage m)) =
     Some (readMessage m,
       map cleanWire (toolCalls (ToolCalls m)))"
  by (simp add: ChatMessage_into_def clientMessage_def noChatMessage_def isField_quoted
      read_calls rawInto_def readMessage_def del: toolCalls_simps)

lemma read_messages:
  "sliceInto ChatMessage_into noChatMessage ([], 0) (json_of (GSlice (map clientMessage msgs))) =
     Some (map (\<lambda>m. (readMessage m, map cleanWire (toolCalls (ToolCalls m)))) msgs, length msgs)"
  by (rule sliceInto_map) (rule read_message)

lemma messageText_quote: "cm_Content m = quote s \<Longrightarrow> messageText m = sanitize s"
  by (simp add: messageText_def unmarshalString_quote) (simp add: quote_def)

lemma decode_read:
  "decodeMessage (readMessage m) =
     cleanMessage m"
  by (simp add: readMessage_def decodeMessage_def messageText_quote cleanMessage_def toolCalls_def cleanWire_def cleanCall_def)

lemma nesting_clientMessage: "nesting (clientMessage m) \<le> 4"
proof -
  have "fold max (map nesting (map WireToolCall_json (toolCalls (ToolCalls m)))) 0 \<le> 2"
    by (rule nesting_le) auto
  then show ?thesis by (simp add: clientMessage_def)
qed

lemma clientBody_reads:
  assumes "- (2 ^ 63) \<le> maxTokens" "maxTokens \<le> MaxInt"
  shows "unmarshalChat (clientBody model msgs stream thinks maxTokens) =
    Some \<lparr>cq_Model = sanitize model,
      cq_Messages = map readMessage msgs,
      cq_Tools = [], cq_Stream = stream, cq_StreamOptions = None, cq_MaxTokens = maxTokens,
      cq_MaxCompletionTokens = 0, cq_Temperature = None, cq_TopP = None, cq_IgnoreEOS = False,
      cq_EnableThinking = Some thinks\<rparr>"
proof -
  let ?kvs = "[(''model'', GStr model), (''messages'', GSlice (map clientMessage msgs)),
      (''stream'', GBool stream), (''enable_thinking'', GBool thinks), (''max_tokens'', GInt maxTokens)]"
  have "fold max (map nesting (map clientMessage msgs)) 0 \<le> 4"
    by (rule nesting_le) (use nesting_clientMessage in auto)
  then have "nesting (GStruct ?kvs) \<le> maxNestingDepth" by (simp add: maxNestingDepth_def)
  moreover have "rawless (clientMessage m)" for m by (simp add: clientMessage_def rawless_map)
  then have "rawless (GStruct ?kvs)" by (simp add: rawless_map)
  ultimately have p: "parseJSON (clientBody model msgs stream thinks maxTokens) =
      Some (clientBody model msgs stream thinks maxTokens, json_of (GStruct ?kvs))"
    unfolding clientBody_def by (intro marshalled_reads(1))
  show ?thesis
    by (simp add: unmarshalChat_def unmarshal_def p ChatRequest_of_def isField_quoted stringField_def
        boolField_def intField_def floatPointer_def boolPointer_def optionsPointer_def intInto_int [OF assms]
        read_messages comp_def)
qed

text \<open>Messages in valid UTF-8 arrive as they are.\<close>

definition validMessage :: "Message \<Rightarrow> bool" where
  "validMessage m =
     (list_all ValidString [Role m, Content m, ToolCallID m] \<and>
      list_all (\<lambda>tc. list_all ValidString [tc_ID tc, tc_Name tc, tc_ArgumentsJSON tc]) (ToolCalls m))"

lemma cleanMessage_valid: "validMessage m \<Longrightarrow> cleanMessage m = m"
proof -
  assume v: "validMessage m"
  have "map cleanCall (ToolCalls m) = ToolCalls m"
    by (rule map_idI) (use v in \<open>auto simp: validMessage_def cleanCall_def list_all_iff sanitize_valid\<close>)
  then show ?thesis using v by (simp add: cleanMessage_def validMessage_def sanitize_valid)
qed

subsection \<open>The properties of request bodies\<close>

text \<open>
  C34: the body a client writes for a conversation, whatever characters it contains, is read by the
  server as that conversation: \<open>encoding/json\<close>, driven by the tags of the request types, the
  flattening of the content and the mapping to the neutral request lose nothing (bytes that are not UTF-8 have
  become replacement characters).
\<close>

theorem chat_request_roundtrip:
  assumes "- (2 ^ 63) \<le> maxTokens" "maxTokens \<le> MaxInt"
  shows "map_option decode (unmarshalChat (clientBody model msgs stream thinks maxTokens)) =
    Some \<lparr>rq_Messages = map cleanMessage msgs, rq_Tools = [], rq_EnableThinking = thinks,
      rq_MaxTokens = maxTokens, rq_Temperature = None, rq_TopP = None, rq_IgnoreEOS = False,
      rq_RawPrompt = [], rq_InputIDs = []\<rparr>"
  by (simp add: clientBody_reads [OF assms] decode_def decode_read comp_def)

lemma chat_request_roundtrip_witness:
  "map_option decode (unmarshalChat (clientBody ''qwen3'' [plainMessage ''user'' ''hi''] True False 64)) =
    Some \<lparr>rq_Messages = map cleanMessage [plainMessage ''user'' ''hi''], rq_Tools = [], rq_EnableThinking = False,
      rq_MaxTokens = 64, rq_Temperature = None, rq_TopP = None, rq_IgnoreEOS = False,
      rq_RawPrompt = [], rq_InputIDs = []\<rparr>"
  by (rule chat_request_roundtrip) (simp_all add: MaxInt_def)

text \<open>A prompt of token ids, and a content of parts.\<close>

lemma marshalled_value:
  "rawless g \<Longrightarrow> nesting g \<le> maxNestingDepth \<Longrightarrow> unmarshal f (marshalled g) = f (json_of g)"
  by (simp add: unmarshal_def marshalled_reads(1))

lemma unmarshalInts_marshalled:
  assumes "list_all (\<lambda>i. - (2 ^ 63) \<le> i \<and> i \<le> MaxInt) is"
  shows "unmarshalInts (marshalled (GSlice (map GInt is))) = Some is"
    and "unmarshalString (marshalled (GSlice (map GInt is))) = None"
proof -
  have "fold max (map nesting (map GInt is)) 0 \<le> 0" by (rule nesting_le) auto
  then have n: "nesting (GSlice (map GInt is)) \<le> maxNestingDepth" by (simp add: maxNestingDepth_def)
  have r: "rawless (GSlice (map GInt is))" by (simp add: rawless_map)
  have "elemsInto intInto 0 [] (map (\<lambda>i. json_of (GInt i)) is) = Some is"
    using assms by (induction "is") (simp_all add: intInto_int)
  then have "sliceInto intInto 0 ([], 0) (json_of (GSlice (map GInt is))) = Some (is, length is)"
    by (simp add: sliceInto_def json_of.simps comp_def)
  then show "unmarshalInts (marshalled (GSlice (map GInt is))) = Some is"
    by (simp add: unmarshalInts_def marshalled_value [OF r n] sliceOf_def)
  show "unmarshalString (marshalled (GSlice (map GInt is))) = None"
    by (simp add: unmarshalString_def marshalled_value [OF r n] stringInto_def json_of.simps)
qed

definition clientPart :: "gostring \<times> gostring \<Rightarrow> goval" where
  "clientPart p = GStruct [(''type'', GStr (fst p)), (''text'', GStr (snd p))]"

lemma read_part:
  "partInto ([], []) (json_of (clientPart p)) = Some (sanitize (fst p), sanitize (snd p))"
  by (simp add: partInto_def clientPart_def isField_quoted lowerKey_def)

lemma messageText_clientParts:
  assumes "cm_Content m = marshalled (GSlice (map clientPart parts))"
  shows "messageText m = concat (map (\<lambda>p. sanitize (snd p)) (filter (\<lambda>p. sanitize (fst p) = ''text'') parts))"
proof -
  have "fold max (map nesting (map clientPart parts)) 0 \<le> 1"
    by (rule nesting_le) (auto simp: clientPart_def)
  then have n: "nesting (GSlice (map clientPart parts)) \<le> maxNestingDepth" by (simp add: maxNestingDepth_def)
  have r: "rawless (GSlice (map clientPart parts))" by (simp add: clientPart_def rawless_map)
  have "sliceInto partInto ([], []) ([], 0) (json_of (GSlice (map clientPart parts))) =
      Some (map (\<lambda>p. (sanitize (fst p), sanitize (snd p))) parts, length parts)"
    by (rule sliceInto_map) (rule read_part)
  then have ps: "unmarshalParts (cm_Content m) = Some (map (\<lambda>p. (sanitize (fst p), sanitize (snd p))) parts)"
    by (simp add: assms unmarshalParts_def marshalled_value [OF r n])
  have none: "unmarshalString (cm_Content m) = None"
    by (simp add: assms unmarshalString_def marshalled_value [OF r n] stringInto_def json_of.simps)
  have "parseJSON (cm_Content m) = Some (cm_Content m, json_of (GSlice (map clientPart parts)))"
    unfolding assms by (rule marshalled_reads(1) [OF r n])
  moreover have "parseJSON ''null'' = Some (''null'', JNull)"
    by (rule encodes_parseJSON [OF encodes_words(3)])
  ultimately have "cm_Content m \<noteq> ''null''" by (auto simp: json_of.simps)
  moreover have "parseJSON [] = None" by (simp add: parseJSON_def jvalue.simps)
  then have "cm_Content m \<noteq> []" using ps by (auto simp: unmarshalParts_def unmarshal_def)
  ultimately show ?thesis
    using messageText_parts [of m] ps none by (simp add: filter_map comp_def)
qed

text \<open>Token ids reach the engine modulo \<open>2 ^ 32\<close>.\<close>

lemma buildRequest_int32:
  assumes "map to_int32 a = map to_int32 b"
  shows "buildRequest g (req\<lparr>rq_InputIDs := a\<rparr>) = buildRequest g (req\<lparr>rq_InputIDs := b\<rparr>)"
proof (cases "a = []")
  case False
  moreover have "length a = length b" using map_eq_imp_length_eq [OF assms] .
  moreover from this False have "b \<noteq> []" by auto
  ultimately show ?thesis
    using assms by (simp add: buildRequest_def promptIDs_def Let_def split: sum.split)
qed (use assms in simp)

lemma handlers_buildRequest:
  assumes "buildRequest (sv_gen sv) r1 = buildRequest (sv_gen sv) r2"
  shows "streamCompletion rt sv cx r1 u = streamCompletion rt sv cx r2 u"
    and "blockingCompletion rt sv cx r1 = blockingCompletion rt sv cx r2"
proof -
  have "Complete rt (sv_gen sv) r1 = Complete rt (sv_gen sv) r2"
    using assms by (simp add: Complete_def)
  then show "streamCompletion rt sv cx r1 u = streamCompletion rt sv cx r2 u"
    "blockingCompletion rt sv cx r1 = blockingCompletion rt sv cx r2"
    by (simp_all add: streamCompletion_def blockingCompletion_def)
qed

lemma decodeCompletion_ids:
  assumes "list_all (\<lambda>i. - (2 ^ 63) \<le> i \<and> i \<le> MaxInt) ids"
  shows "decodeCompletion (req\<lparr>tq_Prompt := marshalled (GSlice (map GInt ids))\<rparr>) =
    Inr \<lparr>rq_Messages = [], rq_Tools = [], rq_EnableThinking = False, rq_MaxTokens = tq_MaxTokens req,
      rq_Temperature = tq_Temperature req, rq_TopP = tq_TopP req, rq_IgnoreEOS = tq_IgnoreEOS req,
      rq_RawPrompt = [], rq_InputIDs = ids\<rparr>"
  using unmarshalInts_marshalled [OF assms] by (simp add: decodeCompletion_def)

definition idsRequest :: "CompletionRequest \<Rightarrow> int list \<Rightarrow> request" where
  "idsRequest req ids =
     \<lparr>rq_Messages = [], rq_Tools = [], rq_EnableThinking = False, rq_MaxTokens = tq_MaxTokens req,
      rq_Temperature = tq_Temperature req, rq_TopP = tq_TopP req, rq_IgnoreEOS = tq_IgnoreEOS req,
      rq_RawPrompt = [], rq_InputIDs = ids\<rparr>"

lemma idsRequest_wraps:
  "buildRequest g (idsRequest req (map (\<lambda>i. i + 2 ^ 32) ids)) = buildRequest g (idsRequest req ids)"
proof -
  have "map to_int32 (map (\<lambda>i. i + 2 ^ 32) ids) = map to_int32 ids"
    by (simp only: map_map comp_def to_int32_wraps)
  from buildRequest_int32 [OF this, of g "idsRequest req []"] show ?thesis
    by (simp add: idsRequest_def)
qed

lemma ids_value:
  shows "rawless (GSlice (map GInt ids))" and "nesting (GSlice (map GInt ids)) \<le> maxNestingDepth"
    and "marshalled (GSlice (map GInt ids)) \<noteq> []"
proof -
  show r: "rawless (GSlice (map GInt ids))" by (simp add: rawless_map)
  have "fold max (map nesting (map GInt ids)) 0 \<le> 0" by (rule nesting_le) auto
  then show n: "nesting (GSlice (map GInt ids)) \<le> maxNestingDepth" by (simp add: maxNestingDepth_def)
  have "parseJSON [] = None" by (simp add: parseJSON_def jvalue.simps)
  then show "marshalled (GSlice (map GInt ids)) \<noteq> []" using marshalled_reads(1) [OF r n] by fastforce
qed

text \<open>What \<open>/v1/completions\<close> does with a prompt of ids.\<close>

lemma completions_ids:
  assumes "list_all (\<lambda>i. - (2 ^ 63) \<le> i \<and> i \<le> MaxInt) ids"
  shows "completions rt sv cx (Inr (req\<lparr>tq_Prompt := marshalled (GSlice (map GInt ids))\<rparr>)) =
    (if tq_Stream req then streamCompletion rt sv cx (idsRequest req ids)
       (case tq_StreamOptions req of Some so \<Rightarrow> IncludeUsage so | None \<Rightarrow> False)
     else blockingCompletion rt sv cx (idsRequest req ids))"
  using decodeCompletion_ids [OF assms, of req] ids_value(3) [of ids]
  by (simp add: completions_def idsRequest_def Let_def)

text \<open>
  C39: the token ids of a raw completion are not checked against 32 bits: adding
  \<open>2 ^ 32\<close> to every id of the prompt gives the same response, events and all.
\<close>

theorem prompt_ids_truncated:
  assumes "list_all (\<lambda>i. - (2 ^ 63) \<le> i \<and> i \<le> MaxInt) ids"
    and "list_all (\<lambda>i. - (2 ^ 63) \<le> i \<and> i \<le> MaxInt) (map (\<lambda>i. i + 2 ^ 32) ids)"
  shows "completions rt sv cx (Inr (req\<lparr>tq_Prompt := marshalled (GSlice (map GInt (map (\<lambda>i. i + 2 ^ 32) ids)))\<rparr>)) =
    completions rt sv cx (Inr (req\<lparr>tq_Prompt := marshalled (GSlice (map GInt ids))\<rparr>))"
  unfolding completions_ids [OF assms(1)] completions_ids [OF assms(2)]
    handlers_buildRequest [OF idsRequest_wraps] by (rule refl)

definition sampleIdsRequest :: CompletionRequest where
  "sampleIdsRequest =
     \<lparr>tq_Model = ''qwen3'', tq_Prompt = [], tq_MaxTokens = 8, tq_Temperature = None, tq_TopP = None,
      tq_Stream = True, tq_StreamOptions = None, tq_IgnoreEOS = False\<rparr>"

lemma prompt_ids_truncated_witness:
  "completions sampleRt sampleServer sampleConn
      (Inr (sampleIdsRequest\<lparr>tq_Prompt := marshalled (GSlice (map GInt (map (\<lambda>i. i + 2 ^ 32) [5])))\<rparr>)) =
    completions sampleRt sampleServer sampleConn
      (Inr (sampleIdsRequest\<lparr>tq_Prompt := marshalled (GSlice (map GInt [5]))\<rparr>))"
  by (rule prompt_ids_truncated) (simp_all add: MaxInt_def)



end
