(* ===== verification/Supervisor.thy ===== *)
theory Supervisor
  imports ChatFormat Strconv
begin

section \<open>Supervising the engine process\<close>

text \<open>
  \<open>internal/supervisor/supervisor.go\<close>: the tail buffer for the engine's stderr, \<open>Start\<close>,
  \<open>Exited\<close>, \<open>Stop\<close> and \<open>freePort\<close>.  The operating system is the record \<open>os\<close> of what each
  call answers, and \<open>world\<close> is what the calls change: the temporary files, the engine
  processes and the open connections.
\<close>

subsection \<open>The tail of stderr\<close>

record tailBuffer =
  tb_buf :: gostring
  tb_max :: nat

definition tail_Write :: "gostring \<Rightarrow> tailBuffer \<Rightarrow> nat \<times> tailBuffer" where
  "tail_Write p t =
     (let buf = tb_buf t @ p;
          buf = (if tb_max t < length buf then drop (length buf - tb_max t) buf else buf) in
      (length p, t\<lparr>tb_buf := buf\<rparr>))"

definition tail_String :: "tailBuffer \<Rightarrow> gostring" where
  "tail_String t = tb_buf t"

definition lastBytes :: "nat \<Rightarrow> gostring \<Rightarrow> gostring" where
  "lastBytes n s = drop (length s - n) s"

lemma lastBytes_append: "lastBytes n (lastBytes n s @ p) = lastBytes n (s @ p)"
  by (cases "length s \<le> n") (simp_all add: lastBytes_def add.commute)

lemma tail_Write_last: "tb_buf (snd (tail_Write p t)) = lastBytes (tb_max t) (tb_buf t @ p)"
  by (simp add: tail_Write_def lastBytes_def Let_def)

lemma tail_Write_max [simp]: "tb_max (snd (tail_Write p t)) = tb_max t"
  by (simp add: tail_Write_def Let_def)

lemma tail_Writes_last:
  "lastBytes (tb_max t) (tb_buf t) = tb_buf t \<Longrightarrow>
   tb_buf (fold (\<lambda>p t. snd (tail_Write p t)) ps t) = lastBytes (tb_max t) (tb_buf t @ concat ps)"
proof (induction ps arbitrary: t)
  case (Cons p ps)
  let ?t = "snd (tail_Write p t)"
  have "lastBytes (tb_max ?t) (tb_buf ?t) = tb_buf ?t"
    using lastBytes_append [of "tb_max t" "tb_buf t @ p" "[]"] by (simp add: tail_Write_last)
  from Cons.IH [OF this] show ?case
    using lastBytes_append [of "tb_max t" "tb_buf t @ p" "concat ps"] by (simp add: tail_Write_last)
qed simp

subsection \<open>Trimming\<close>

text \<open>
  \<open>strings.TrimSpace\<close>: runes of \<open>unicode.IsSpace\<close> are dropped at both ends.  A decoder meets
  such a rune at an end exactly when its encoding is there.
\<close>

definition spaceRunes :: "rune list" where
  "spaceRunes = [9, 10, 11, 12, 13, 32, 0x85, 0xA0, 0x1680, 0x2000, 0x2001, 0x2002, 0x2003, 0x2004,
     0x2005, 0x2006, 0x2007, 0x2008, 0x2009, 0x200A, 0x2028, 0x2029, 0x202F, 0x205F, 0x3000]"

definition spaceAt :: "(gostring \<Rightarrow> gostring \<Rightarrow> bool) \<Rightarrow> gostring \<Rightarrow> nat option" where
  "spaceAt at s = map_option (\<lambda>r. length (EncodeRune r)) (find (\<lambda>r. at (EncodeRune r) s) spaceRunes)"

lemma EncodeRune_length_pos: "0 < length (EncodeRune r)"
  by (simp add: EncodeRune_def Let_def)

function trimLeft :: "gostring \<Rightarrow> gostring" where
  "trimLeft s = (if s = [] then [] else
     case spaceAt prefix s of None \<Rightarrow> s | Some n \<Rightarrow> trimLeft (drop n s))"
  by pat_completeness auto
termination
  by (relation "measure length") (auto simp: spaceAt_def EncodeRune_length_pos)

function trimRight :: "gostring \<Rightarrow> gostring" where
  "trimRight s = (if s = [] then [] else
     case spaceAt suffix s of None \<Rightarrow> s | Some n \<Rightarrow> trimRight (take (length s - n) s))"
  by pat_completeness auto
termination
  by (relation "measure length") (auto simp: spaceAt_def EncodeRune_length_pos)

declare trimLeft.simps [simp del] trimRight.simps [simp del]

definition TrimSpace :: "gostring \<Rightarrow> gostring" where
  "TrimSpace s = trimRight (trimLeft s)"

subsection \<open>Processes and files\<close>

record world =
  w_files :: "gostring set"
  w_procs :: "gostring set"
  w_conns :: nat

record os =
  os_CreateTemp :: "gostring + gostring"
  os_Write :: "gostring option"
  os_Chmod :: "gostring option"
  os_Listen :: "gostring + gostring"
  os_Start :: "gostring option"

record Engine =
  e_Addr :: gostring
  e_args :: "gostring list"
  e_path :: gostring
  e_tail :: tailBuffer
  e_done :: bool
  e_waitErr :: "gostring option"

record engine_config =
  ec_modelDir :: gostring
  ec_slots :: int
  ec_maxCtx :: int
  ec_maxWaiting :: int
  ec_tokenBudget :: int
  ec_prefillChunk :: int
  ec_gpuMemFraction :: float64

definition freePort :: "os \<Rightarrow> gostring + gostring" where
  "freePort env = (case os_Listen env of Inl e \<Rightarrow> Inl e | Inr addr \<Rightarrow> Inr addr)"

definition engineArgs :: "engine_config \<Rightarrow> gostring \<Rightarrow> gostring list" where
  "engineArgs c addr =
     [''--model'', ec_modelDir c,
      ''--address'', addr,
      ''--slots'', itoa (ec_slots c),
      ''--max-ctx'', itoa (ec_maxCtx c),
      ''--max-waiting'', itoa (ec_maxWaiting c),
      ''--token-budget'', itoa (ec_tokenBudget c),
      ''--prefill-chunk'', itoa (ec_prefillChunk c),
      ''--gpu-mem-fraction'', formatFloat4 (ec_gpuMemFraction c)]"

definition os_Remove :: "gostring \<Rightarrow> world \<Rightarrow> world" where
  "os_Remove path w = w\<lparr>w_files := w_files w - {path}\<rparr>"

definition Start :: "os \<Rightarrow> engine_config \<Rightarrow> world \<Rightarrow> (gostring + Engine) \<times> world" where
  "Start env c w =
     (case os_CreateTemp env of
        Inl e \<Rightarrow> (Inl e, w)
      | Inr name \<Rightarrow>
        let w = w\<lparr>w_files := insert name (w_files w)\<rparr> in
        case os_Write env of
          Some e \<Rightarrow> (Inl e, w)
        | None \<Rightarrow>
          (case os_Chmod env of
             Some e \<Rightarrow> (Inl e, w)
           | None \<Rightarrow>
             (case freePort env of
                Inl e \<Rightarrow> (Inl e, os_Remove name w)
              | Inr addr \<Rightarrow>
                let tl = \<lparr>tb_buf = [], tb_max = 8192\<rparr> in
                (case os_Start env of
                   Some e \<Rightarrow> (Inl (''start engine: '' @ e), os_Remove name w)
                 | None \<Rightarrow>
                   (Inr \<lparr>e_Addr = addr, e_args = engineArgs c addr, e_path = name, e_tail = tl,
                         e_done = False, e_waitErr = None\<rparr>,
                    w\<lparr>w_procs := insert name (w_procs w)\<rparr>)))))"

text \<open>The stderr writer and the reaper goroutine, as the two steps by which the process acts on the handle.\<close>

definition stderr_step :: "gostring \<Rightarrow> Engine \<Rightarrow> Engine" where
  "stderr_step p e = e\<lparr>e_tail := snd (tail_Write p (e_tail e))\<rparr>"

definition reap :: "gostring option \<Rightarrow> Engine \<Rightarrow> world \<Rightarrow> Engine \<times> world" where
  "reap err e w =
     (if e_done e then (e, w)
      else (e\<lparr>e_done := True, e_waitErr := err\<rparr>, w\<lparr>w_procs := w_procs w - {e_path e}\<rparr>))"

definition Exited :: "Engine \<Rightarrow> gostring option" where
  "Exited e =
     (if e_done e then
        let msg = ''engine process exited'';
            msg = (case e_waitErr e of Some x \<Rightarrow> msg @ '' ('' @ x @ '')'' | None \<Rightarrow> msg);
            t = TrimSpace (tail_String (e_tail e));
            msg = (if t \<noteq> [] then msg @ ''; engine stderr:'' @ [CHR 0x0A] @ t else msg) in
        Some msg
      else None)"

text \<open>
  \<open>Stop\<close> signals the process and blocks on the reaper, whose result is \<open>err\<close>, before it removes
  the binary.
\<close>

definition Stop :: "gostring option \<Rightarrow> Engine \<Rightarrow> world \<Rightarrow> Engine \<times> world" where
  "Stop err e w =
     (let (e, w) = reap err e w in (e, os_Remove (e_path e) w))"

subsection \<open>What is left behind\<close>

lemma Start_error:
  assumes "Start env c w = (Inl e, w')"
  shows "w_procs w' = w_procs w \<and> w_conns w' = w_conns w"
  using assms by (auto simp: Start_def Let_def os_Remove_def split: sum.splits option.splits)

lemma Start_clean:
  assumes "Start env c w = (Inl e, w')" "os_Write env = None" "os_Chmod env = None"
    and "\<And>n. os_CreateTemp env = Inr n \<Longrightarrow> n \<notin> w_files w"
  shows "w' = w"
  using assms by (auto simp: Start_def Let_def os_Remove_def split: sum.splits option.splits)

lemma Start_success:
  assumes "Start env c w = (Inr e, w')"
  shows "os_CreateTemp env = Inr (e_path e)"
    and "w' = w\<lparr>w_files := insert (e_path e) (w_files w), w_procs := insert (e_path e) (w_procs w)\<rparr>"
    and "e_done e = False" "e_tail e = \<lparr>tb_buf = [], tb_max = 8192\<rparr>"
  using assms by (auto simp: Start_def Let_def split: sum.splits option.splits)

lemma Start_Stop:
  assumes "Start env c w = (Inr e, w')" "e_path e \<notin> w_files w" "e_path e \<notin> w_procs w"
  shows "snd (Stop err e w') = w"
  using Start_success [OF assms(1)] assms(2,3) by (simp add: Stop_def reap_def os_Remove_def)

lemma stderr_steps_tail:
  "e_tail (fold stderr_step ps e) = fold (\<lambda>p t. snd (tail_Write p t)) ps (e_tail e)"
  by (induction ps arbitrary: e) (simp_all add: stderr_step_def)

subsection \<open>The life of an engine\<close>

text \<open>
  What can happen to a started engine, in any interleaving: it writes to stderr, the reaper sees
  it end, and \<open>Stop\<close> is called.  \<open>cmd.Wait\<close> returns only after stderr has been copied, so no
  write follows the reaper.  A run is a finite sequence of such steps.
\<close>

datatype engine_event = Wrote gostring | Ended "gostring option" | StopCalled "gostring option"

inductive engine_step :: "Engine \<times> world \<Rightarrow> engine_event \<Rightarrow> Engine \<times> world \<Rightarrow> bool" where
  wrote: "\<not> e_done e \<Longrightarrow> engine_step (e, w) (Wrote p) (stderr_step p e, w)"
| ended: "\<not> e_done e \<Longrightarrow> engine_step (e, w) (Ended err) (reap err e w)"
| stopped: "engine_step (e, w) (StopCalled err) (Stop err e w)"

inductive engine_run :: "Engine \<times> world \<Rightarrow> engine_event list \<Rightarrow> Engine \<times> world \<Rightarrow> bool" where
  start: "engine_run s [] s"
| step: "engine_run s evs s' \<Longrightarrow> engine_step s' ev s'' \<Longrightarrow> engine_run s (evs @ [ev]) s''"



fun writtenBy :: "engine_event \<Rightarrow> gostring option" where
  "writtenBy (Wrote p) = Some p"
| "writtenBy _ = None"

definition stderrOf :: "engine_event list \<Rightarrow> gostring" where
  "stderrOf evs = concat (List.map_filter writtenBy evs)"

lemma stderrOf_snoc: "stderrOf (evs @ [ev]) = stderrOf evs @ (case writtenBy ev of Some p \<Rightarrow> p | None \<Rightarrow> [])"
  by (simp add: stderrOf_def map_filter_simps split: option.split)

text \<open>What every reachable state of a handle satisfies, given what was written to stderr.\<close>

definition engine_inv :: "gostring \<Rightarrow> gostring \<Rightarrow> Engine \<times> world \<Rightarrow> bool" where
  "engine_inv path out = (\<lambda>(e, w).
     e_path e = path \<and> tb_max (e_tail e) = 8192 \<and> tb_buf (e_tail e) = lastBytes 8192 out \<and>
     (e_done e \<longleftrightarrow> path \<notin> w_procs w))"

lemma engine_inv_step:
  assumes "engine_step s ev s'" "engine_inv path out s"
  shows "engine_inv path (out @ (case writtenBy ev of Some p \<Rightarrow> p | None \<Rightarrow> [])) s'"
  using assms
proof (cases rule: engine_step.cases)
  case (wrote e w p)
  then show ?thesis using assms(2) lastBytes_append [of 8192 out p]
    by (simp add: engine_inv_def stderr_step_def tail_Write_last)
next
  case (ended e w err)
  then show ?thesis using assms(2) by (auto simp: engine_inv_def reap_def)
next
  case (stopped e w err)
  then show ?thesis using assms(2) by (auto simp: engine_inv_def Stop_def reap_def os_Remove_def)
qed

lemma engine_inv_run:
  assumes "engine_run s evs s'" "engine_inv path [] s"
  shows "engine_inv path (stderrOf evs) s'"
  using assms
proof (induction rule: engine_run.induct)
  case (start s)
  then show ?case by (simp add: stderrOf_def map_filter_simps)
next
  case (step s evs s' ev s'')
  then show ?case using engine_inv_step [OF step.hyps(2)] by (simp add: stderrOf_snoc)
qed

lemma Start_inv: "Start env c w = (Inr e, w') \<Longrightarrow> engine_inv (e_path e) [] (e, w')"
  using Start_success [of env c w e w'] by (simp add: engine_inv_def lastBytes_def)

lemma Exited_None: "Exited e = None \<longleftrightarrow> \<not> e_done e"
  by (simp add: Exited_def Let_def)

subsection \<open>The properties of the supervisor\<close>

text \<open>
  C26: in every state a started engine can reach, however its stderr writes, its end and
  calls of \<open>Stop\<close> interleave, the tail buffer holds exactly the last 8192 bytes of everything it
  wrote to stderr, and \<open>Exited\<close> reports an error exactly when the process is gone.
\<close>

theorem engine_life:
  assumes "Start env c w = (Inr e, w')" "engine_run (e, w') evs (e1, w1)"
  shows "tail_String (e_tail e1) = lastBytes 8192 (stderrOf evs) \<and>
     (Exited e1 = None) = (e_path e1 \<in> w_procs w1)"
proof -
  have "engine_inv (e_path e) (stderrOf evs) (e1, w1)"
    by (rule engine_inv_run [OF assms(2) Start_inv [OF assms(1)]])
  then show ?thesis by (auto simp: engine_inv_def tail_String_def Exited_None)
qed

text \<open>
  If writing the engine binary to its temporary file or making it executable fails,
  \<open>Start\<close> returns the error and leaves the file behind, unlike on its later error paths.
\<close>

theorem Start_leaks_temp_file:
  assumes "os_CreateTemp env = Inr name" "os_Write env = Some e \<or> os_Chmod env = Some e"
  shows "\<exists>e'. fst (Start env c w) = Inl e' \<and> name \<in> w_files (snd (Start env c w))"
  using assms by (auto simp: Start_def Let_def split: option.split)

definition sampleOs :: os where
  "sampleOs = \<lparr>os_CreateTemp = Inr ''/tmp/e'', os_Write = None, os_Chmod = None,
     os_Listen = Inr ''127.0.0.1:4000'', os_Start = None\<rparr>"

definition sampleWorld :: world where
  "sampleWorld = \<lparr>w_files = {}, w_procs = {}, w_conns = 0\<rparr>"

definition sampleEngineConfig :: engine_config where
  "sampleEngineConfig = \<lparr>ec_modelDir = ''m'', ec_slots = 1, ec_maxCtx = 4096, ec_maxWaiting = 0,
     ec_tokenBudget = 1024, ec_prefillChunk = 512, ec_gpuMemFraction = 0\<rparr>"

lemma engine_life_witness:
  "\<exists>e w e1 w1. Start sampleOs sampleEngineConfig sampleWorld = (Inr e, w) \<and>
     engine_run (e, w) [Wrote ''loading'', Ended (Some ''exit status 1'')] (e1, w1) \<and>
     tail_String (e_tail e1) = lastBytes 8192 (stderrOf [Wrote ''loading'', Ended (Some ''exit status 1'')]) \<and>
     (Exited e1 = None) = (e_path e1 \<in> w_procs w1)"
proof -
  let ?evs = "[Wrote ''loading'', Ended (Some ''exit status 1'')]"
  obtain e w where s: "Start sampleOs sampleEngineConfig sampleWorld = (Inr e, w)"
    by (simp add: Start_def sampleOs_def freePort_def Let_def)
  note fresh = Start_success(3) [OF s]
  obtain e1 w1 where r: "reap (Some ''exit status 1'') (stderr_step ''loading'' e) w = (e1, w1)" by fastforce
  have "engine_step (e, w) (Wrote ''loading'') (stderr_step ''loading'' e, w)"
    by (rule engine_step.wrote) (simp add: fresh)
  moreover have "engine_step (stderr_step ''loading'' e, w) (Ended (Some ''exit status 1'')) (e1, w1)"
    unfolding r [symmetric] by (rule engine_step.ended) (simp add: fresh stderr_step_def)
  ultimately have "engine_run (e, w) ([] @ [Wrote ''loading''] @ [Ended (Some ''exit status 1'')]) (e1, w1)"
    unfolding append_assoc [symmetric] by (intro engine_run.step) (rule engine_run.start)
  then have run: "engine_run (e, w) ?evs (e1, w1)" by simp
  show ?thesis
    by (intro exI conjI) (rule s, rule run, use engine_life [OF s run] in blast, use engine_life [OF s run] in blast)
qed

lemma Start_leaks_temp_file_witness:
  "\<exists>e'. fst (Start (sampleOs\<lparr>os_Write := Some ''no space left on device''\<rparr>) sampleEngineConfig sampleWorld) = Inl e' \<and>
     ''/tmp/e'' \<in> w_files (snd (Start (sampleOs\<lparr>os_Write := Some ''no space left on device''\<rparr>)
       sampleEngineConfig sampleWorld))"
  by (rule Start_leaks_temp_file [where e = "''no space left on device''"]) (simp_all add: sampleOs_def)

end
