(* ===== verification/Session.thy ===== *)
theory Session
  imports Supervisor TokLoad Generate
begin

section \<open>Sessions\<close>

text \<open>
  \<open>open\<close> of \<open>cmd/flashqwen/common.go\<close> (here \<open>openSession\<close>) with the teardown it returns.
\<close>

subsection \<open>Opening a session\<close>

record session =
  se_gen :: generator
  se_info :: ModelInfo
  se_engine :: Engine

text \<open>
  What \<open>open\<close> meets: the model files, the generation config, the operating system, the result
  of dialling and the probes of the readiness poll; and how the process ends when it is stopped.
\<close>

record environment =
  en_files :: files
  en_config :: file_reader
  en_os :: os
  en_dial :: "gostring option"
  en_now :: int
  en_probes :: "probe list"
  en_exit :: "gostring option"

definition startupTimeout :: int where
  "startupTimeout = 1800 * 1000000000"

datatype open_failure = LoadFailed load_failure | OpenFailed gostring | EngineFailed goerror

definition Dial :: "gostring option \<Rightarrow> world \<Rightarrow> gostring option \<times> world" where
  "Dial result w = (case result of Some e \<Rightarrow> (Some e, w) | None \<Rightarrow> (None, w\<lparr>w_conns := w_conns w + 1\<rparr>))"

definition conn_Close :: "world \<Rightarrow> world" where
  "conn_Close w = w\<lparr>w_conns := w_conns w - 1\<rparr>"

text \<open>\<open>None\<close> is a poll still running.\<close>

definition openSession ::
  "environment \<Rightarrow> engine_config \<Rightarrow> world \<Rightarrow> (open_failure + session) option \<times> world" where
  "openSession env c w =
     (case Load (en_files env) (ec_modelDir c) of
        Inl e \<Rightarrow> (Some (Inl (LoadFailed e)), w)
      | Inr tok \<Rightarrow>
        let cm = FormatLoad (en_config env) (ec_modelDir c) tok in
        (case Start (en_os env) c w of
           (Inl e, w) \<Rightarrow> (Some (Inl (OpenFailed e)), w)
         | (Inr spv, w) \<Rightarrow>
           (case Dial (en_dial env) w of
              (Some e, w) \<Rightarrow> (Some (Inl (OpenFailed e)), snd (Stop (en_exit env) spv w))
            | (None, w) \<Rightarrow>
              (case WaitReady (en_now env) startupTimeout True (en_probes env) of
                 None \<Rightarrow> (None, w)
               | Some (Inl e) \<Rightarrow>
                   (Some (Inl (EngineFailed e)), snd (Stop (en_exit env) spv (conn_Close w)))
               | Some (Inr info) \<Rightarrow>
                   (Some (Inr \<lparr>se_gen = NewGenerator cm tok (mi_MaxCtx info),
                               se_info = info, se_engine = spv\<rparr>), w)))))"

text \<open>The \<open>stop\<close> closure of the session.\<close>

definition session_stop :: "gostring option \<Rightarrow> session \<Rightarrow> world \<Rightarrow> world" where
  "session_stop err s w = snd (Stop err (se_engine s) (conn_Close w))"

lemma Start_Stop_conn:
  assumes "Start env c w = (Inr e, w')" "e_path e \<notin> w_files w" "e_path e \<notin> w_procs w"
  shows "snd (Stop err e (conn_Close (w'\<lparr>w_conns := w_conns w' + 1\<rparr>))) = w"
  using Start_success [OF assms(1)] assms(2,3)
  by (simp add: Stop_def reap_def os_Remove_def conn_Close_def)

text \<open>A fresh temporary file: the operating system gives a name not in use.\<close>

definition fresh_temp :: "os \<Rightarrow> world \<Rightarrow> bool" where
  "fresh_temp env w = (case os_CreateTemp env of Inl _ \<Rightarrow> True | Inr n \<Rightarrow> n \<notin> w_files w \<and> n \<notin> w_procs w)"

lemma fresh_temp_Start:
  "fresh_temp env w \<Longrightarrow> Start env c w = (Inr e, w') \<Longrightarrow> e_path e \<notin> w_files w \<and> e_path e \<notin> w_procs w"
  using Start_success(1) [of env c w e w'] by (simp add: fresh_temp_def)

lemma openSession_clean:
  assumes "fresh_temp (en_os env) w" "os_Write (en_os env) = None" "os_Chmod (en_os env) = None"
    and "openSession env c w = (Some (Inl e), w')"
  shows "w' = w"
proof (cases "Load (en_files env) (ec_modelDir c)")
  case (Inl x)
  then show ?thesis using assms(4) by (simp add: openSession_def)
next
  case (Inr tok)
  obtain st w1 where st: "Start (en_os env) c w = (st, w1)" by fastforce
  show ?thesis
  proof (cases st)
    case Inl': (Inl x)
    then have "w' = w1" using assms(4) Inr st by (simp add: openSession_def)
    moreover have "w1 = w"
      by (rule Start_clean [OF st [unfolded Inl'] assms(2,3)])
        (use assms(1) in \<open>simp add: fresh_temp_def\<close>)
    ultimately show ?thesis by simp
  next
    case spv: (Inr spv)
    note fresh = fresh_temp_Start [OF assms(1) st [unfolded spv]]
    note stop = Start_Stop [OF st [unfolded spv], of "en_exit env"]
      Start_Stop_conn [OF st [unfolded spv], of "en_exit env"]
    show ?thesis using assms(4) Inr st spv stop fresh
      by (auto simp: openSession_def Dial_def split: option.splits sum.splits)
  qed
qed

lemma openSession_opened:
  assumes "openSession env c w = (Some (Inr s), w')"
  obtains w1 where "Start (en_os env) c w = (Inr (se_engine s), w1)" "w' = w1\<lparr>w_conns := w_conns w1 + 1\<rparr>"
proof -
  obtain tok where tok: "Load (en_files env) (ec_modelDir c) = Inr tok"
    using assms by (auto simp: openSession_def split: sum.splits)
  obtain st w1 where st: "Start (en_os env) c w = (st, w1)" by fastforce
  obtain spv where spv: "st = Inr spv"
    using assms tok st by (auto simp: openSession_def split: sum.splits)
  have "se_engine s = spv" "w' = w1\<lparr>w_conns := w_conns w1 + 1\<rparr>"
    using assms tok st spv by (auto simp: openSession_def Dial_def split: option.splits sum.splits)
  then show ?thesis using that st spv by simp
qed

lemma openSession_stop:
  assumes "fresh_temp (en_os env) w" "openSession env c w = (Some (Inr s), w')"
  shows "session_stop err s w' = w"
proof -
  obtain w1 where o: "Start (en_os env) c w = (Inr (se_engine s), w1)" "w' = w1\<lparr>w_conns := w_conns w1 + 1\<rparr>"
    using openSession_opened [OF assms(2)] .
  then show ?thesis
    using Start_Stop_conn [OF o(1), of err] fresh_temp_Start [OF assms(1) o(1)]
    by (simp add: session_stop_def)
qed

subsection \<open>The property of opening\<close>

text \<open>
  If the binary could be extracted, every failing way through \<open>open\<close> gives back
  what it took: no temporary file, engine process or connection of it is left.
\<close>

theorem openSession_error_clean:
  assumes "fresh_temp (en_os env) w" "os_Write (en_os env) = None" "os_Chmod (en_os env) = None"
    and "openSession env c w = (Some (Inl e), w')"
  shows "w' = w"
  by (rule openSession_clean [OF assms])

definition sampleEnv :: environment where
  "sampleEnv =
     \<lparr>en_files = sampleFiles,
      en_config = (\<lambda>_. None),
      en_os = sampleOs, en_dial = None, en_now = 0,
      en_probes = [\<lparr>pr_rpc = Inl ''refused'', pr_exit = None, pr_now = 3\<rparr>,
        \<lparr>pr_rpc = Inr \<lparr>pm_Id = ''qwen3'', pm_MaxCtx = 4096, pm_VocabSize = 258\<rparr>, pr_exit = None, pr_now = 4\<rparr>],
      en_exit = None\<rparr>"

lemma sample_Load: "Load sampleFiles ''m'' = Inr (loaded sampleVocab sampleAdded (mergesOf sampleMerges))"
  by (rule Load_loaded [OF sample_reads sample_ids])

lemma openSession_error_clean_witness:
  "snd (openSession (sampleEnv\<lparr>en_probes := [\<lparr>pr_rpc = Inl ''refused'', pr_exit = Some (Plain ''died''), pr_now = 3\<rparr>]\<rparr>)
     sampleEngineConfig sampleWorld) = sampleWorld"
proof (rule openSession_error_clean)
  let ?env = "sampleEnv\<lparr>en_probes := [\<lparr>pr_rpc = Inl ''refused'', pr_exit = Some (Plain ''died''), pr_now = 3\<rparr>]\<rparr>"
  have "fst (openSession ?env sampleEngineConfig sampleWorld) = Some (Inl (EngineFailed (Plain ''died'')))"
    using sample_Load
    by (simp add: openSession_def sampleEnv_def sampleEngineConfig_def Start_def sampleOs_def freePort_def
        Dial_def WaitReady_def waitLoop.simps GetModel_def Let_def)
  then show "openSession ?env sampleEngineConfig sampleWorld =
      (Some (Inl (EngineFailed (Plain ''died''))), snd (openSession ?env sampleEngineConfig sampleWorld))"
    by (simp add: prod_eq_iff)
qed (simp_all add: sampleEnv_def sampleOs_def sampleWorld_def fresh_temp_def)

end
