(* ===== verification/Flags.thy ===== *)
theory Flags
  imports Strconv "HOL-Library.AList"
begin

section \<open>Go's \<open>flag\<close> package\<close>

text \<open>
  A \<open>FlagSet\<close> with the policy \<open>ExitOnError\<close>, as the standard library defines it: the flags with
  their current values, and \<open>Parse\<close> over the arguments.  Parsing stops at the first argument that
  is not a flag, or after \<open>--\<close>; an error exits with 2, a request for help with 0.
\<close>

datatype flag_value = StringFlag gostring | IntFlag int | FloatFlag float64 | BoolFlag bool

type_synonym flag_set = "(gostring \<times> flag_value) list"

datatype parsed = Parsed flag_set "gostring list" | ExitWith int

text \<open>\<open>Value.Set\<close>.\<close>

fun setValue :: "flag_value \<Rightarrow> gostring \<Rightarrow> flag_value option" where
  "setValue (StringFlag _) s = Some (StringFlag s)"
| "setValue (IntFlag _) s = map_option IntFlag (parseInt0 s)"
| "setValue (FloatFlag _) s = map_option FloatFlag (parseFloat s)"
| "setValue (BoolFlag _) s = map_option BoolFlag (parseBool s)"

definition isBoolFlag :: "flag_value \<Rightarrow> bool" where
  "isBoolFlag v = (case v of BoolFlag _ \<Rightarrow> True | _ \<Rightarrow> False)"

text \<open>What an argument is: not a flag, the terminator, bad syntax, or a name and perhaps a value.\<close>

datatype flag_arg = NotFlag | Terminator | BadSyntax | Flag gostring "gostring option"

definition isEquals :: "char \<Rightarrow> bool" where
  "isEquals c = (c = CHR ''='')"

definition splitEquals :: "gostring \<Rightarrow> gostring \<times> gostring option" where
  "splitEquals name =
     (let n = takeWhile (\<lambda>c. \<not> isEquals c) name; r = dropWhile (\<lambda>c. \<not> isEquals c) name in
      (n, if r = [] then None else Some (tl r)))"

definition flagArg :: "gostring \<Rightarrow> flag_arg" where
  "flagArg s =
     (if length s < 2 \<or> hd s \<noteq> CHR ''-'' then NotFlag
      else if s = ''--'' then Terminator
      else
        let name = (if s ! 1 = CHR ''-'' then drop 2 s else drop 1 s) in
        if name = [] \<or> hd name = CHR ''-'' \<or> isEquals (hd name) then BadSyntax
        else case_prod Flag (splitEquals name))"

text \<open>
  One flag: the values after it and the remaining arguments.  A boolean flag takes a value only
  with an equals sign; any other takes the next argument if it has none.
\<close>

definition putFlag :: "flag_set \<Rightarrow> gostring \<Rightarrow> gostring \<Rightarrow> flag_set option" where
  "putFlag fs name s =
     (case map_of fs name of
        None \<Rightarrow> None
      | Some v \<Rightarrow> map_option (\<lambda>v'. AList.update name v' fs) (setValue v s))"

datatype one_flag = Seen flag_set "gostring list" | NoMore "gostring list" | Failed int

definition parseOne :: "flag_set \<Rightarrow> gostring list \<Rightarrow> one_flag" where
  "parseOne fs args =
     (case args of
        [] \<Rightarrow> NoMore []
      | a # as \<Rightarrow>
        (case flagArg a of
           NotFlag \<Rightarrow> NoMore args
         | Terminator \<Rightarrow> NoMore as
         | BadSyntax \<Rightarrow> Failed 2
         | Flag name val \<Rightarrow>
           (case map_of fs name of
              None \<Rightarrow> Failed (if name = ''help'' \<or> name = ''h'' then 0 else 2)
            | Some v \<Rightarrow>
                let (val, as) = (if isBoolFlag v then (Some (case val of Some s \<Rightarrow> s | None \<Rightarrow> ''true''), as)
                                 else if val = None \<and> as \<noteq> [] then (Some (hd as), tl as)
                                 else (val, as)) in
                (case Option.bind val (putFlag fs name) of
                   None \<Rightarrow> Failed 2
                 | Some fs' \<Rightarrow> Seen fs' as))))"

lemma parseOne_shorter [progress]: "parseOne fs args = Seen fs' as \<Longrightarrow> length as < length args"
  by (cases args) (auto simp: parseOne_def Let_def split: flag_arg.splits option.splits if_splits)

function Parse :: "flag_set \<Rightarrow> gostring list \<Rightarrow> parsed" where
  "Parse fs args =
     (case parseOne fs args of
        Seen fs' as \<Rightarrow> Parse fs' as
      | NoMore as \<Rightarrow> Parsed fs as
      | Failed code \<Rightarrow> ExitWith code)"
  by pat_completeness auto
termination
  by (relation "measure (\<lambda>(fs, args). length args)") (auto simp: parseOne_shorter)

declare Parse.simps [simp del]

text \<open>Reading the variables \<open>fs.String\<close>, \<open>fs.Int\<close>, \<open>fs.Float64\<close> and \<open>fs.Bool\<close> point to.\<close>

definition stringOf :: "flag_set \<Rightarrow> gostring \<Rightarrow> gostring" where
  "stringOf fs name = (case map_of fs name of Some (StringFlag s) \<Rightarrow> s | _ \<Rightarrow> [])"

definition intOf :: "flag_set \<Rightarrow> gostring \<Rightarrow> int" where
  "intOf fs name = (case map_of fs name of Some (IntFlag i) \<Rightarrow> i | _ \<Rightarrow> 0)"

definition floatOf :: "flag_set \<Rightarrow> gostring \<Rightarrow> float64" where
  "floatOf fs name = (case map_of fs name of Some (FloatFlag x) \<Rightarrow> x | _ \<Rightarrow> 0)"

definition boolOf :: "flag_set \<Rightarrow> gostring \<Rightarrow> bool" where
  "boolOf fs name = (case map_of fs name of Some (BoolFlag b) \<Rightarrow> b | _ \<Rightarrow> False)"

subsection \<open>Facts\<close>

text \<open>Parsing keeps the flags and the type of each: reading a variable never meets another type.\<close>

fun sameKind :: "flag_value \<Rightarrow> flag_value \<Rightarrow> bool" where
  "sameKind (StringFlag _) (StringFlag _) = True"
| "sameKind (IntFlag _) (IntFlag _) = True"
| "sameKind (FloatFlag _) (FloatFlag _) = True"
| "sameKind (BoolFlag _) (BoolFlag _) = True"
| "sameKind _ _ = False"

definition sameFlags :: "flag_set \<Rightarrow> flag_set \<Rightarrow> bool" where
  "sameFlags fs fs' = (\<forall>name. rel_option sameKind (map_of fs name) (map_of fs' name))"

lemma sameKind_refl: "sameKind v v"
  by (cases v) simp_all

lemma sameKind_trans: "sameKind u v \<Longrightarrow> sameKind v w \<Longrightarrow> sameKind u w"
  by (cases u; cases v; cases w) simp_all

lemma setValue_kind: "setValue v s = Some v' \<Longrightarrow> sameKind v v'"
  by (cases v) auto

lemma sameFlags_refl: "sameFlags fs fs"
  by (simp add: sameFlags_def option.rel_refl sameKind_refl)

lemma sameFlags_trans: "sameFlags fs gs \<Longrightarrow> sameFlags gs hs \<Longrightarrow> sameFlags fs hs"
  unfolding sameFlags_def
proof
  fix name
  assume "\<forall>name. rel_option sameKind (map_of fs name) (map_of gs name)"
    "\<forall>name. rel_option sameKind (map_of gs name) (map_of hs name)"
  then have "rel_option sameKind (map_of fs name) (map_of gs name)"
    "rel_option sameKind (map_of gs name) (map_of hs name)" by simp_all
  then show "rel_option sameKind (map_of fs name) (map_of hs name)"
    by (cases "map_of fs name"; cases "map_of gs name"; cases "map_of hs name") (auto intro: sameKind_trans)
qed

lemma putFlag_kind: "putFlag fs name s = Some fs' \<Longrightarrow> sameFlags fs fs'"
  by (auto simp: putFlag_def sameFlags_def update_conv' setValue_kind sameKind_refl option.rel_refl
      split: option.splits)

lemma parseOne_kind: "parseOne fs args = Seen fs' as \<Longrightarrow> sameFlags fs fs'"
  by (cases args) (auto simp: parseOne_def Let_def bind_eq_Some_conv intro: putFlag_kind
      split: flag_arg.splits option.splits if_splits)

lemma Parse_kind: "Parse fs args = Parsed fs' rest \<Longrightarrow> sameFlags fs fs'"
proof (induction fs args rule: Parse.induct)
  case (1 fs args)
  show ?case
  proof (cases "parseOne fs args")
    case (Seen fs1 as)
    then show ?thesis
      using 1 parseOne_kind [OF Seen] by (subst (asm) Parse.simps) (auto intro: sameFlags_trans)
  qed (use 1(2) in \<open>simp_all add: Parse.simps sameFlags_refl\<close>)
qed

text \<open>A flag written \<open>--name value\<close>.\<close>

definition plainName :: "gostring \<Rightarrow> bool" where
  "plainName name = (name \<noteq> [] \<and> hd name \<noteq> CHR ''-'' \<and> list_all (\<lambda>c. \<not> isEquals c) name)"

lemma flagArg_plain: "plainName name \<Longrightarrow> flagArg (''--'' @ name) = Flag name None"
  by (cases name)
    (auto simp: flagArg_def plainName_def splitEquals_def list_all_iff takeWhile_eq_all_conv dropWhile_eq_Nil_conv)

lemma Parse_Nil [simp]: "Parse fs [] = Parsed fs []"
  by (subst Parse.simps) (simp add: parseOne_def)

lemma Parse_value:
  assumes "plainName name" "map_of fs name = Some v" "\<not> isBoolFlag v" "setValue v s = Some v'"
  shows "Parse fs ((''--'' @ name) # s # as) = Parse (AList.update name v' fs) as"
  using assms by (subst Parse.simps) (simp add: parseOne_def flagArg_plain putFlag_def del: append_Cons)

end
