(* ===== verification/Serve.thy ===== *)
theory Serve
  imports Session Flags Completions
begin

section \<open>The serve command\<close>

text \<open>
  \<open>runServe\<close> of \<open>cmd/flashqwen/serve.go\<close>: the flags, opening the session, and then two
  goroutines.  The main one runs the HTTP server and, when it fails, stops the session and exits
  with 1; the other waits for a signal, stops the session and exits with 0.  A state of the
  running command is \<open>serve_state\<close>; \<open>serve_step\<close> lets either goroutine or the engine's reaper
  move, in any order, until one of the goroutines has made the process exit.
\<close>

subsection \<open>Flags\<close>

text \<open>The bit pattern of the double 0.9.\<close>

definition float64_09 :: float64 where
  "float64_09 = 0x3FECCCCCCCCCCCCD"

definition serveFlags :: flag_set where
  "serveFlags =
     [(''model'', StringFlag []), (''addr'', StringFlag '':8000''), (''slots'', IntFlag 16),
      (''max-ctx'', IntFlag 4096), (''max-waiting'', IntFlag 0), (''token-budget'', IntFlag 1024),
      (''prefill-chunk'', IntFlag 512), (''gpu-mem-fraction'', FloatFlag float64_09)]"

definition serveConfig :: "flag_set \<Rightarrow> engine_config" where
  "serveConfig fs =
     \<lparr>ec_modelDir = stringOf fs ''model'', ec_slots = intOf fs ''slots'', ec_maxCtx = intOf fs ''max-ctx'',
      ec_maxWaiting = intOf fs ''max-waiting'', ec_tokenBudget = intOf fs ''token-budget'',
      ec_prefillChunk = intOf fs ''prefill-chunk'', ec_gpuMemFraction = floatOf fs ''gpu-mem-fraction''\<rparr>"

subsection \<open>The running command\<close>

text \<open>Where a goroutine is: running, or at a step of \<open>stop\<close>, the exit of the process being the last.\<close>

datatype goroutine = Running | Closing | Signalling | Awaiting | Removing | Exiting

record serve_state =
  rs_server :: server
  rs_addr :: gostring
  rs_engine :: Engine
  rs_connected :: bool
  rs_world :: world
  rs_main :: goroutine
  rs_handler :: goroutine
  rs_exit :: "int option"

datatype serve_begun = Quit int | StillOpening | Started serve_state

definition serveOpen :: "environment \<Rightarrow> gostring list \<Rightarrow> world \<Rightarrow> serve_begun \<times> world" where
  "serveOpen env args w =
     (case Parse serveFlags args of
        ExitWith code \<Rightarrow> (Quit code, w)
      | Parsed fs _ \<Rightarrow>
        if stringOf fs ''model'' = [] then (Quit 1, w)
        else case openSession env (serveConfig fs) w of
          (None, w) \<Rightarrow> (StillOpening, w)
        | (Some (Inl e), w) \<Rightarrow> (Quit 1, w)
        | (Some (Inr s), w) \<Rightarrow>
            (Started \<lparr>rs_server = NewServer (se_gen s) (mi_ID (se_info s)), rs_addr = stringOf fs ''addr'',
               rs_engine = se_engine s, rs_connected = True, rs_world = w,
               rs_main = Running, rs_handler = Running, rs_exit = None\<rparr>, w))"

text \<open>
  One step of \<open>stop\<close>: close the connection, signal the engine, wait for the reaper, remove the
  binary.  Closing a closed connection and removing a removed file do nothing.  \<open>None\<close> is blocked,
  or not stopping.
\<close>

definition stop_step :: "goroutine \<Rightarrow> serve_state \<Rightarrow> (goroutine \<times> serve_state) option" where
  "stop_step g st =
     (case g of
        Closing \<Rightarrow> Some (Signalling,
          if rs_connected st then st\<lparr>rs_connected := False, rs_world := conn_Close (rs_world st)\<rparr> else st)
      | Signalling \<Rightarrow> Some (Awaiting, st)
      | Awaiting \<Rightarrow> if e_done (rs_engine st) then Some (Removing, st) else None
      | Removing \<Rightarrow> Some (Exiting, st\<lparr>rs_world := os_Remove (e_path (rs_engine st)) (rs_world st)\<rparr>)
      | _ \<Rightarrow> None)"

definition reaped :: "gostring option \<Rightarrow> serve_state \<Rightarrow> serve_state" where
  "reaped err st =
     (let (e, w) = reap err (rs_engine st) (rs_world st) in st\<lparr>rs_engine := e, rs_world := w\<rparr>)"

inductive serve_step :: "serve_state \<Rightarrow> serve_state \<Rightarrow> bool" where
  run_failed: "rs_exit st = None \<Longrightarrow> rs_main st = Running \<Longrightarrow> serve_step st (st\<lparr>rs_main := Closing\<rparr>)"
| got_signal: "rs_exit st = None \<Longrightarrow> rs_handler st = Running \<Longrightarrow> serve_step st (st\<lparr>rs_handler := Closing\<rparr>)"
| main_stops: "rs_exit st = None \<Longrightarrow> stop_step (rs_main st) st = Some (g, st') \<Longrightarrow>
    serve_step st (st'\<lparr>rs_main := g\<rparr>)"
| handler_stops: "rs_exit st = None \<Longrightarrow> stop_step (rs_handler st) st = Some (g, st') \<Longrightarrow>
    serve_step st (st'\<lparr>rs_handler := g\<rparr>)"
| main_exits: "rs_exit st = None \<Longrightarrow> rs_main st = Exiting \<Longrightarrow> serve_step st (st\<lparr>rs_exit := Some 1\<rparr>)"
| handler_exits: "rs_exit st = None \<Longrightarrow> rs_handler st = Exiting \<Longrightarrow> serve_step st (st\<lparr>rs_exit := Some 0\<rparr>)"
| engine_ends: "rs_exit st = None \<Longrightarrow> \<not> e_done (rs_engine st) \<Longrightarrow> serve_step st (reaped err st)"

inductive_simps serve_step_iff: "serve_step st st'"

abbreviation serve_steps :: "serve_state \<Rightarrow> serve_state \<Rightarrow> bool" where
  "serve_steps \<equiv> serve_step\<^sup>*\<^sup>*"

text \<open>The command has ended, with its exit code.\<close>

definition serve_ended :: "environment \<Rightarrow> gostring list \<Rightarrow> world \<Rightarrow> int \<Rightarrow> world \<Rightarrow> bool" where
  "serve_ended env args w code w' =
     (serveOpen env args w = (Quit code, w') \<or>
      (\<exists>st0 w1 st. serveOpen env args w = (Started st0, w1) \<and> serve_steps st0 st \<and>
        rs_exit st = Some code \<and> rs_world st = w'))"

subsection \<open>Nothing is left behind\<close>

definition past_close :: "goroutine \<Rightarrow> bool" where
  "past_close g = (g \<in> {Signalling, Awaiting, Removing, Exiting})"

definition past_wait :: "goroutine \<Rightarrow> bool" where
  "past_wait g = (g \<in> {Removing, Exiting})"

text \<open>
  The goroutines and the world: \<open>w\<close> is the world the command started in.  \<open>g_inv\<close> is what the
  place of one goroutine says of the rest.
\<close>

definition world_inv :: "world \<Rightarrow> Engine \<Rightarrow> bool \<Rightarrow> world \<Rightarrow> bool" where
  "world_inv w e connected w' =
     (e_path e \<notin> w_files w \<and> e_path e \<notin> w_procs w \<and>
      w_conns w' = w_conns w + (if connected then 1 else 0) \<and>
      w_procs w' = (if e_done e then w_procs w else insert (e_path e) (w_procs w)) \<and>
      (w_files w' = w_files w \<or> w_files w' = insert (e_path e) (w_files w)))"

definition g_inv :: "world \<Rightarrow> Engine \<Rightarrow> bool \<Rightarrow> world \<Rightarrow> goroutine \<Rightarrow> bool" where
  "g_inv w e connected w' g =
     ((past_close g \<longrightarrow> \<not> connected) \<and> (past_wait g \<longrightarrow> e_done e) \<and> (g = Exiting \<longrightarrow> w_files w' = w_files w))"

definition serve_inv :: "world \<Rightarrow> serve_state \<Rightarrow> bool" where
  "serve_inv w st =
     (world_inv w (rs_engine st) (rs_connected st) (rs_world st) \<and>
      g_inv w (rs_engine st) (rs_connected st) (rs_world st) (rs_main st) \<and>
      g_inv w (rs_engine st) (rs_connected st) (rs_world st) (rs_handler st) \<and>
      (rs_exit st = None \<or> rs_exit st = Some 1 \<and> rs_main st = Exiting \<or>
       rs_exit st = Some 0 \<and> rs_handler st = Exiting))"

lemma g_inv_simps [simp]:
  "g_inv w e c w' Running" "g_inv w e c w' Closing"
  "g_inv w e c w' Signalling = (\<not> c)" "g_inv w e c w' Awaiting = (\<not> c)"
  "g_inv w e c w' Removing = (\<not> c \<and> e_done e)"
  "g_inv w e c w' Exiting = (\<not> c \<and> e_done e \<and> w_files w' = w_files w)"
  by (simp_all add: g_inv_def past_close_def past_wait_def)

text \<open>What one step of \<open>stop\<close> does, and that it keeps what the other goroutine relies on.\<close>

lemma stop_step_frame:
  assumes "stop_step g st = Some (g', st')"
  shows "rs_main st' = rs_main st" "rs_handler st' = rs_handler st" "rs_exit st' = rs_exit st"
    "rs_engine st' = rs_engine st"
  using assms by (cases g; auto simp: stop_step_def split: if_splits)+

lemma close_inv:
  assumes "world_inv w e c w1"
  shows "world_inv w e False (if c then conn_Close w1 else w1)"
    and "g_inv w e c w1 h \<Longrightarrow> g_inv w e False (if c then conn_Close w1 else w1) h"
  using assms by (cases c; simp add: world_inv_def g_inv_def conn_Close_def)+

lemma remove_inv:
  assumes "world_inv w e c w1"
  shows "world_inv w e c (os_Remove (e_path e) w1)" and "w_files (os_Remove (e_path e) w1) = w_files w"
    and "g_inv w e c w1 h \<Longrightarrow> g_inv w e c (os_Remove (e_path e) w1) h"
proof -
  show f: "w_files (os_Remove (e_path e) w1) = w_files w"
    using assms by (auto simp: world_inv_def os_Remove_def)
  show "world_inv w e c (os_Remove (e_path e) w1)"
    using assms f by (simp add: world_inv_def os_Remove_def)
  show "g_inv w e c w1 h \<Longrightarrow> g_inv w e c (os_Remove (e_path e) w1) h"
    using f by (simp add: g_inv_def)
qed

lemma stop_step_inv:
  assumes step: "stop_step g st = Some (g', st')"
    and inv: "world_inv w (rs_engine st) (rs_connected st) (rs_world st)"
      "g_inv w (rs_engine st) (rs_connected st) (rs_world st) g"
  shows "world_inv w (rs_engine st) (rs_connected st') (rs_world st') \<and>
    g_inv w (rs_engine st) (rs_connected st') (rs_world st') g' \<and>
    (g_inv w (rs_engine st) (rs_connected st) (rs_world st) h \<longrightarrow>
     g_inv w (rs_engine st) (rs_connected st') (rs_world st') h)"
proof (cases g)
  case Closing
  then have eq: "rs_connected st' = False" "g' = Signalling"
      "rs_world st' = (if rs_connected st then conn_Close (rs_world st) else rs_world st)"
    using step by (auto simp: stop_step_def split: if_splits)
  show ?thesis unfolding eq using close_inv [OF inv(1)] by (simp add: eq)
next
  case Awaiting
  then have "st' = st" "g' = Removing" "e_done (rs_engine st)"
    using step by (simp_all add: stop_step_def split: if_splits)
  then show ?thesis using inv Awaiting by simp
next
  case Removing
  then have "st' = st\<lparr>rs_world := os_Remove (e_path (rs_engine st)) (rs_world st)\<rparr>" "g' = Exiting"
    using step by (simp_all add: stop_step_def)
  then show ?thesis using remove_inv [OF inv(1)] inv(2) Removing by simp
qed (use step inv in \<open>simp_all add: stop_step_def\<close>)

lemma reap_inv:
  assumes "reap err e w1 = (e', w2)" "\<not> e_done e" "world_inv w e c w1"
  shows "world_inv w e' c w2" "g_inv w e c w1 g \<Longrightarrow> g_inv w e' c w2 g"
  using assms by (auto simp: reap_def world_inv_def g_inv_def past_wait_def)

lemma serve_inv_step:
  assumes "serve_step st st'" "serve_inv w st"
  shows "serve_inv w st'"
  using assms(1)
proof (cases rule: serve_step.cases)
  case (main_stops g st1)
  note inv = assms(2) [unfolded serve_inv_def]
  show ?thesis
    using inv main_stops(2) stop_step_frame [OF main_stops(3)] stop_step_inv [OF main_stops(3), of w]
    by (simp add: serve_inv_def main_stops(1))
next
  case (handler_stops g st1)
  note inv = assms(2) [unfolded serve_inv_def]
  show ?thesis
    using inv handler_stops(2) stop_step_frame [OF handler_stops(3)] stop_step_inv [OF handler_stops(3), of w]
    by (simp add: serve_inv_def handler_stops(1))
next
  case (engine_ends err)
  obtain e' w2 where r: "reap err (rs_engine st) (rs_world st) = (e', w2)" by fastforce
  show ?thesis
    using assms(2) reap_inv [OF r engine_ends(3), of w] engine_ends(2)
    by (simp add: serve_inv_def engine_ends(1) reaped_def r)
qed (use assms(2) in \<open>auto simp: serve_inv_def\<close>)

lemma serve_inv_steps: "serve_steps st st' \<Longrightarrow> serve_inv w st \<Longrightarrow> serve_inv w st'"
  by (induction rule: rtranclp_induct) (auto intro: serve_inv_step)

lemma serve_inv_exit:
  assumes "serve_inv w st" "rs_exit st = Some code"
  shows "rs_world st = w"
proof (rule world.equality)
  show "world.more (rs_world st) = world.more w" by simp
qed (use assms in \<open>auto simp: serve_inv_def world_inv_def\<close>)

lemma serveOpen_Started:
  assumes "fresh_temp (en_os env) w" "serveOpen env args w = (Started st, w')"
  shows "serve_inv w st"
proof -
  obtain fs rest s where s: "openSession env (serveConfig fs) w = (Some (Inr s), w')"
    "rs_engine st = se_engine s" "rs_connected st" "rs_world st = w'" "rs_main st = Running"
    "rs_handler st = Running" "rs_exit st = None"
    using assms(2) by (auto simp: serveOpen_def split: parsed.splits if_splits prod.splits option.splits sum.splits)
  obtain w1 where o: "Start (en_os env) (serveConfig fs) w = (Inr (se_engine s), w1)"
      "w' = w1\<lparr>w_conns := w_conns w1 + 1\<rparr>"
    using openSession_opened [OF s(1)] .
  show ?thesis
    using Start_success [OF o(1)] fresh_temp_Start [OF assms(1) o(1)]
    by (simp add: serve_inv_def world_inv_def s o(2))
qed

subsection \<open>Every run ends\<close>

fun stepsLeft :: "goroutine \<Rightarrow> nat" where
  "stepsLeft Running = 5"
| "stepsLeft Closing = 4"
| "stepsLeft Signalling = 3"
| "stepsLeft Awaiting = 2"
| "stepsLeft Removing = 1"
| "stepsLeft Exiting = 0"

definition serve_rank :: "serve_state \<Rightarrow> nat" where
  "serve_rank st =
     stepsLeft (rs_main st) + stepsLeft (rs_handler st) + (if e_done (rs_engine st) then 0 else 1) +
     (if rs_exit st = None then 1 else 0)"

lemma stop_step_less: "stop_step g st = Some (g', st') \<Longrightarrow> stepsLeft g' < stepsLeft g"
  by (cases g) (auto simp: stop_step_def split: if_splits)

lemma serve_step_less: "serve_step st st' \<Longrightarrow> serve_rank st' < serve_rank st"
proof (induction rule: serve_step.induct)
  case (main_stops st g st')
  then show ?case using stop_step_frame [OF main_stops(2)] stop_step_less [OF main_stops(2)]
    by (simp add: serve_rank_def)
next
  case (handler_stops st g st')
  then show ?case using stop_step_frame [OF handler_stops(2)] stop_step_less [OF handler_stops(2)]
    by (simp add: serve_rank_def)
next
  case (engine_ends st err)
  then show ?case by (simp add: serve_rank_def reaped_def reap_def)
qed (simp_all add: serve_rank_def)

lemma serve_steps_bound: "(serve_step ^^ n) st st' \<Longrightarrow> n + serve_rank st' \<le> serve_rank st"
proof (induction n arbitrary: st')
  case (Suc n)
  then obtain st1 where "(serve_step ^^ n) st st1" "serve_step st1 st'" by auto
  then show ?case using Suc.IH [of st1] serve_step_less [of st1 st'] by simp
qed simp

lemma serve_not_stuck: "rs_exit st = None \<Longrightarrow> \<exists>st'. serve_step st st'"
proof (cases "rs_main st")
  case Running
  assume "rs_exit st = None"
  with Running show ?thesis by (blast intro: run_failed)
next
  case Exiting
  assume "rs_exit st = None"
  with Exiting show ?thesis by (blast intro: main_exits)
next
  case Awaiting
  assume "rs_exit st = None"
  moreover from Awaiting have "e_done (rs_engine st) \<Longrightarrow> stop_step (rs_main st) st = Some (Removing, st)"
    by (simp add: stop_step_def)
  ultimately show ?thesis by (blast intro: main_stops engine_ends)
qed (auto intro!: exI serve_step.main_stops simp: stop_step_def)

lemma serve_step_open: "serve_step st st' \<Longrightarrow> rs_exit st = None"
  by (auto simp: serve_step_iff)

lemma serve_reaches_exit: "\<exists>st' code. serve_steps st st' \<and> rs_exit st' = Some code"
proof (induction "serve_rank st" arbitrary: st rule: less_induct)
  case less
  show ?case
  proof (cases "rs_exit st")
    case None
    then obtain st1 where "serve_step st st1" using serve_not_stuck by blast
    then show ?thesis using less [OF serve_step_less] by (blast intro: converse_rtranclp_into_rtranclp)
  qed blast
qed

lemma serve_rank_le: "serve_rank st \<le> 12"
proof -
  have "stepsLeft g \<le> 5" for g by (cases g) simp_all
  from add_mono [OF this [of "rs_main st"] this [of "rs_handler st"]] show ?thesis
    by (simp add: serve_rank_def)
qed

lemma serve_ended_clean:
  assumes "fresh_temp (en_os env) w" "os_Write (en_os env) = None" "os_Chmod (en_os env) = None"
    and "serve_ended env args w code w'"
  shows "w' = w"
  using assms(4) unfolding serve_ended_def
proof (elim disjE exE conjE)
  assume q: "serveOpen env args w = (Quit code, w')"
  show ?thesis
    using q openSession_clean [OF assms(1-3)]
    by (auto simp: serveOpen_def split: parsed.splits if_splits prod.splits option.splits sum.splits)
next
  fix st0 w1 st
  assume o: "serveOpen env args w = (Started st0, w1)" "serve_steps st0 st" "rs_exit st = Some code" "rs_world st = w'"
  show ?thesis
    using serve_inv_exit [OF serve_inv_steps [OF o(2) serveOpen_Started [OF assms(1) o(1)]] o(3)] o(4) by simp
qed

subsection \<open>The flags of an invocation\<close>

definition serveArgs ::
  "gostring \<Rightarrow> gostring \<Rightarrow> int \<Rightarrow> int \<Rightarrow> int \<Rightarrow> int \<Rightarrow> int \<Rightarrow> gostring \<Rightarrow> gostring list" where
  "serveArgs model addr slots maxCtx maxWaiting tokenBudget prefillChunk fraction =
     [''--model'', model, ''--addr'', addr, ''--slots'', itoa slots, ''--max-ctx'', itoa maxCtx,
      ''--max-waiting'', itoa maxWaiting, ''--token-budget'', itoa tokenBudget,
      ''--prefill-chunk'', itoa prefillChunk, ''--gpu-mem-fraction'', fraction]"

definition int64 :: "int \<Rightarrow> bool" where
  "int64 i = (- (2 ^ 63) \<le> i \<and> i \<le> MaxInt)"

lemma plain_names [simp]:
  "plainName ''model''" "plainName ''addr''" "plainName ''slots''" "plainName ''max-ctx''"
  "plainName ''max-waiting''" "plainName ''token-budget''" "plainName ''prefill-chunk''"
  "plainName ''gpu-mem-fraction''" "plainName ''think''"
  by (simp_all add: plainName_def isEquals_def)

lemma Parse_serveArgs:
  assumes "list_all int64 [n1, n2, n3, n4, n5]" "parseFloat fraction = Some x"
  shows "Parse serveFlags (serveArgs model addr n1 n2 n3 n4 n5 fraction) =
    Parsed [(''model'', StringFlag model), (''addr'', StringFlag addr), (''slots'', IntFlag n1),
      (''max-ctx'', IntFlag n2), (''max-waiting'', IntFlag n3), (''token-budget'', IntFlag n4),
      (''prefill-chunk'', IntFlag n5), (''gpu-mem-fraction'', FloatFlag x)] []"
  using assms Parse_value [of "''model''"] Parse_value [of "''addr''"] Parse_value [of "''slots''"]
    Parse_value [of "''max-ctx''"] Parse_value [of "''max-waiting''"] Parse_value [of "''token-budget''"]
    Parse_value [of "''prefill-chunk''"] Parse_value [of "''gpu-mem-fraction''"]
  by (simp add: serveArgs_def serveFlags_def int64_def parseInt0_itoa isBoolFlag_def)

lemma Start_args: "Start env c w = (Inr e, w') \<Longrightarrow> e_args e = engineArgs c (e_Addr e)"
  by (auto simp: Start_def Let_def split: sum.splits option.splits)

subsection \<open>The properties of serve\<close>

text \<open>
  If the binary could be extracted, \<open>serve\<close> leaves no temporary file, engine
  process or connection behind when it exits: whether its flags were wrong, opening the session
  failed, the HTTP server failed or a signal came, and however the two goroutines that stop the
  session, and the engine's own end, interleave.
\<close>

theorem serve_leaves_nothing:
  assumes "fresh_temp (en_os env) w" "os_Write (en_os env) = None" "os_Chmod (en_os env) = None"
    and "serve_ended env args w code w'"
  shows "w' = w"
  by (rule serve_ended_clean [OF assms])

definition sampleArgs :: "gostring list" where
  "sampleArgs = serveArgs ''m'' '':8000'' 1 4096 0 1024 512 ''0''"

lemma sample_parseFloat: "parseFloat ''0'' = Some 0"
proof -
  have "mantissa 10 False 0 0 False ''0'' = (0, 0, True, [])"
    by (simp add: isUnderscore_def digitIn_def digitVal_def isDigit_def)
  moreover have "ratBits 0 1 = 0" by (simp add: ratBits_def roundDiv_def)
  ultimately show ?thesis
    by (simp add: parseFloat_def signed_def lowerByte_def basePrefix_def isUnderscore_def exponent_def
        scaledBits_def inf64_def signBit_def del: mantissa.simps)
qed

lemma sample_serveOpen: "\<exists>st w'. serveOpen sampleEnv sampleArgs sampleWorld = (Started st, w')"
  using sample_Load Parse_serveArgs [OF _ sample_parseFloat, of 1 4096 0 1024 512 "''m''" "'':8000''"]
  by (simp add: serveOpen_def sampleArgs_def int64_def MaxInt_def stringOf_def serveConfig_def
      openSession_def sampleEnv_def Start_def sampleOs_def freePort_def
      Dial_def WaitReady_def waitLoop.simps GetModel_def startupTimeout_def Let_def)

lemma serve_leaves_nothing_witness:
  "\<exists>code w'. serve_ended sampleEnv sampleArgs sampleWorld code w' \<and> w' = sampleWorld"
proof -
  obtain st0 w1 where o: "serveOpen sampleEnv sampleArgs sampleWorld = (Started st0, w1)"
    using sample_serveOpen by blast
  obtain st code where "serve_steps st0 st" "rs_exit st = Some code"
    using serve_reaches_exit by blast
  with o have e: "serve_ended sampleEnv sampleArgs sampleWorld code (rs_world st)"
    unfolding serve_ended_def by blast
  have "rs_world st = sampleWorld"
    by (rule serve_leaves_nothing [OF _ _ _ e])
      (simp_all add: sampleEnv_def sampleOs_def sampleWorld_def fresh_temp_def)
  with e show ?thesis by blast
qed




definition sampleServing :: serve_state where
  "sampleServing = \<lparr>rs_server = \<lparr>sv_gen = sampleGen, sv_model = ''qwen3''\<rparr>, rs_addr = '':8000'',
     rs_engine = \<lparr>e_Addr = ''127.0.0.1:4000'', e_args = [], e_path = ''/tmp/e'',
       e_tail = \<lparr>tb_buf = [], tb_max = 8192\<rparr>, e_done = False, e_waitErr = None\<rparr>,
     rs_connected = True, rs_world = sampleWorld, rs_main = Running, rs_handler = Running, rs_exit = None\<rparr>"


end
