(* ===== verification/ChatCli.thy ===== *)
theory ChatCli
  imports Serve
begin

section \<open>The interactive chat and the dispatch\<close>

text \<open>
  \<open>runChat\<close> of \<open>cmd/flashqwen/chat.go\<close>, from its flags to its loop, and \<open>main\<close> of
  \<open>main.go\<close>.
\<close>

subsection \<open>The chat loop\<close>

record chat_state =
  history :: "Message list"
  thinking :: bool

datatype verdict = Continue | Return

abbreviation esc :: gostring where
  "esc \<equiv> [CHR 0x1B]"

definition youPrompt :: gostring where
  "youPrompt = nl @ esc @ ''[1mYou:'' @ esc @ ''[0m ''"

definition assistantPrompt :: gostring where
  "assistantPrompt = esc @ ''[1mAssistant:'' @ esc @ ''[0m ''"

definition trimNewline :: "gostring \<Rightarrow> gostring" where
  "trimNewline l = rev (dropWhile (\<lambda>c. c = CHR 0x0D \<or> c = CHR 0x0A) (rev l))"

definition userMessage :: "gostring \<Rightarrow> Message" where
  "userMessage l = \<lparr>Role = ''user'', Content = l, ToolCalls = [], ToolCallID = []\<rparr>"

definition assistantMessage :: "gostring \<Rightarrow> Message" where
  "assistantMessage l = \<lparr>Role = ''assistant'', Content = l, ToolCalls = [], ToolCallID = []\<rparr>"

definition chatRequest :: "Message list \<Rightarrow> bool \<Rightarrow> request" where
  "chatRequest h th =
     \<lparr>rq_Messages = h, rq_Tools = [], rq_EnableThinking = th, rq_MaxTokens = 0,
      rq_Temperature = None, rq_TopP = None, rq_IgnoreEOS = False, rq_RawPrompt = [],
      rq_InputIDs = []\<rparr>"

text \<open>
  One line of input: the new state, whether the loop goes on, and what is printed.  \<open>None\<close> is a
  generation that has not returned.
\<close>

definition chatLine ::
  "runtime \<Rightarrow> generator \<Rightarrow> gostring \<Rightarrow> chat_state \<Rightarrow> (verdict \<times> chat_state \<times> gostring list) option" where
  "chatLine rt g raw s =
     (let line = trimNewline raw in
      if line = ''/exit'' \<or> line = ''/quit'' then Some (Return, s, [])
      else if line = [] then Some (Continue, s, [])
      else if line = ''/reset'' then Some (Continue, s\<lparr>history := []\<rparr>, [''[context cleared]'' @ nl])
      else if line = ''/think on'' then Some (Continue, s\<lparr>thinking := True\<rparr>, [''[thinking on]'' @ nl])
      else if line = ''/think off'' then Some (Continue, s\<lparr>thinking := False\<rparr>, [''[thinking off]'' @ nl])
      else
        let s = s\<lparr>history := history s @ [userMessage line]\<rparr>;
            (ds, ended) = Generate rt g (chatRequest (history s) (thinking s));
            printed = assistantPrompt # map fst ds @ [nl] in
        (case ended of
           None \<Rightarrow> None
         | Some (Inl err) \<Rightarrow>
             Some (Continue, s\<lparr>history := butlast (history s)\<rparr>,
               printed @ [''[error: '' @ errText err @ '']'' @ nl])
         | Some (Inr res) \<Rightarrow>
             Some (Continue, s\<lparr>history := history s @ [assistantMessage (r_Text res)]\<rparr>, printed)))"

text \<open>
  The loop on the lines \<open>ReadString\<close> returns; the end of the list is the read error (EOF) that
  ends the program.
\<close>

fun chatLoop ::
  "runtime \<Rightarrow> generator \<Rightarrow> gostring list \<Rightarrow> chat_state \<Rightarrow> (chat_state \<times> gostring list) option" where
  "chatLoop rt g [] s = Some (s, [youPrompt, nl])"
| "chatLoop rt g (l # ls) s =
     (case chatLine rt g l s of
        None \<Rightarrow> None
      | Some (Return, s, out) \<Rightarrow> Some (s, youPrompt # out)
      | Some (Continue, s, out) \<Rightarrow> map_option (\<lambda>(s, o'). (s, youPrompt # out @ o')) (chatLoop rt g ls s))"

text \<open>Whole exchanges: user and assistant messages in turn, an answer after every question.\<close>

fun exchanges :: "Message list \<Rightarrow> bool" where
  "exchanges [] = True"
| "exchanges [m] = False"
| "exchanges (u # a # ms) = (Role u = ''user'' \<and> Role a = ''assistant'' \<and> exchanges ms)"

lemma exchanges_snoc:
  "exchanges ms \<Longrightarrow> exchanges (ms @ [userMessage l, assistantMessage x])"
  by (induction ms rule: exchanges.induct) (simp_all add: userMessage_def assistantMessage_def)

lemma chatLine_exchanges:
  assumes "exchanges (history s)" "chatLine rt g l s = Some (v, s', out)"
  shows "exchanges (history s')"
  using assms exchanges_snoc [OF assms(1)]
  by (auto simp: chatLine_def Let_def split: if_splits option.splits sum.splits prod.splits)

lemma chatLoop_exchanges:
  "exchanges (history s) \<Longrightarrow> chatLoop rt g ls s = Some (s', out) \<Longrightarrow> exchanges (history s')"
proof (induction ls arbitrary: s out)
  case (Cons l ls)
  then obtain v s1 o1 where c: "chatLine rt g l s = Some (v, s1, o1)"
    by (auto split: option.splits)
  note ex = chatLine_exchanges [OF Cons.prems(1) c]
  show ?case
  proof (cases v)
    case Continue
    then show ?thesis using Cons.IH [OF ex] Cons.prems(2) c by auto
  next
    case Return
    then show ?thesis using ex Cons.prems(2) c by auto
  qed
qed simp

subsection \<open>The chat command\<close>

definition banner :: gostring where
  "banner = nl @ ''FlashQwen interactive chat. Commands: /exit /quit /reset /think on|off'' @ nl"

definition chatFlags :: flag_set where
  "chatFlags = [(''model'', StringFlag []), (''max-ctx'', IntFlag 4096), (''think'', BoolFlag False)]"

definition chatConfig :: "gostring \<Rightarrow> int \<Rightarrow> engine_config" where
  "chatConfig model maxCtx =
     \<lparr>ec_modelDir = model, ec_slots = 1, ec_maxCtx = maxCtx, ec_maxWaiting = 0,
      ec_tokenBudget = 1024, ec_prefillChunk = 512, ec_gpuMemFraction = float64_09\<rparr>"

datatype chat_end = ChatExit int | Blocked | Finished "Message list" "gostring list"

text \<open>
  \<open>runChat\<close>: bad flags, a missing model and a session that does not open exit; when the loop
  returns, the deferred \<open>stop\<close> runs.  \<open>Blocked\<close> is opening or generating for ever.
\<close>

definition runChat ::
  "environment \<Rightarrow> runtime \<Rightarrow> gostring list \<Rightarrow> gostring list \<Rightarrow> world \<Rightarrow> chat_end \<times> world" where
  "runChat env rt args ls w =
     (case Parse chatFlags args of
        ExitWith code \<Rightarrow> (ChatExit code, w)
      | Parsed fs _ \<Rightarrow>
        if stringOf fs ''model'' = [] then (ChatExit 1, w)
        else case openSession env (chatConfig (stringOf fs ''model'') (intOf fs ''max-ctx'')) w of
          (None, w) \<Rightarrow> (Blocked, w)
        | (Some (Inl e), w) \<Rightarrow> (ChatExit 1, w)
        | (Some (Inr s), w) \<Rightarrow>
            (case chatLoop rt (se_gen s) ls \<lparr>history = [], thinking = boolOf fs ''think''\<rparr> of
               None \<Rightarrow> (Blocked, w)
             | Some (st, out) \<Rightarrow>
                 (Finished (history st) (banner # out), session_stop (en_exit env) s w)))"

subsection \<open>Dispatch\<close>

text \<open>What \<open>main\<close> does: run a command, or print to stderr and exit.\<close>

datatype stderr_text = UnknownCommand gostring | UsageText gostring

datatype command = Serve "gostring list" | Chat "gostring list" | Print "stderr_text list" int

definition usage :: stderr_text where
  "usage = UsageText (''flashqwen '' @ map byte [226, 128, 148] @
     '' OpenAI-compatible server + CLI for a Qwen3 token engine'' @ nl @ nl @
     ''usage:'' @ nl @
     ''  flashqwen serve     --model DIR [--addr :8000] [--slots N] [--max-ctx N]'' @ nl @
     ''  flashqwen chat      --model DIR [--max-ctx N]'' @ nl @ nl @
     ''All modes embed and launch the C++ engine themselves; no separate process to start.'' @ nl)"

definition main :: "gostring list \<Rightarrow> command" where
  "main args =
     (if length args < 2 then Print [usage] 2
      else if args ! 1 = ''serve'' then Serve (drop 2 args)
      else if args ! 1 = ''chat'' then Chat (drop 2 args)
      else if args ! 1 = ''-h'' \<or> args ! 1 = ''--help'' \<or> args ! 1 = ''help'' then Print [usage] 0
      else Print [UnknownCommand (args ! 1), usage] 2)"

text \<open>The program has ended, with its exit code.\<close>

definition program_ended ::
  "environment \<Rightarrow> runtime \<Rightarrow> gostring list \<Rightarrow> gostring list \<Rightarrow> world \<Rightarrow> int \<Rightarrow> world \<Rightarrow> bool" where
  "program_ended env rt args ls w code w' =
     (case main args of
        Serve as \<Rightarrow> serve_ended env as w code w'
      | Chat as \<Rightarrow>
          (case runChat env rt as ls w of
             (ChatExit c, w1) \<Rightarrow> code = c \<and> w' = w1
           | (Blocked, _) \<Rightarrow> False
           | (Finished _ _, w1) \<Rightarrow> code = 0 \<and> w' = w1)
      | Print _ c \<Rightarrow> code = c \<and> w' = w)"

lemma runChat_Finished:
  assumes "runChat env rt args ls w = (Finished h out, w')"
  obtains c s w1 st out1 where "openSession env c w = (Some (Inr s), w1)"
    "\<exists>th. chatLoop rt (se_gen s) ls \<lparr>history = [], thinking = th\<rparr> = Some (st, out1)"
    "h = history st" "w' = session_stop (en_exit env) s w1"
  using assms
  by (auto simp: runChat_def split: parsed.splits if_splits prod.splits option.splits sum.splits)
    (rule that, assumption, rule exI, assumption, simp_all)

lemma runChat_ChatExit:
  assumes "runChat env rt args ls w = (ChatExit code, w')"
  shows "w' = w \<or> (\<exists>c e. openSession env c w = (Some (Inl e), w'))"
  using assms by (auto simp: runChat_def split: parsed.splits if_splits prod.splits option.splits sum.splits)

subsection \<open>The property of the chat\<close>

text \<open>
  C25: whatever is typed into the interactive chat, and whether generations succeed or
  fail, when it ends its history consists of whole exchanges (user and assistant messages
  alternate and every question kept has its answer), and its session is torn down completely.
\<close>

theorem chat_history_exchanges:
  assumes "fresh_temp (en_os env) w" "runChat env rt args ls w = (Finished h out, w')"
  shows "exchanges h \<and> w' = w"
proof -
  obtain c s w1 st out1 where o: "openSession env c w = (Some (Inr s), w1)"
    "\<exists>th. chatLoop rt (se_gen s) ls \<lparr>history = [], thinking = th\<rparr> = Some (st, out1)"
    "h = history st" "w' = session_stop (en_exit env) s w1"
    by (rule runChat_Finished [OF assms(2)])
  have "exchanges (history st)" using o(2) chatLoop_exchanges [of "\<lparr>history = [], thinking = _\<rparr>"] by force
  then show ?thesis using openSession_stop [OF assms(1) o(1)] o(3,4) by simp
qed

definition sampleChatArgs :: "gostring list" where
  "sampleChatArgs = [''--model'', ''m'']"

lemma sample_chatFlags:
  "Parse chatFlags sampleChatArgs =
     Parsed [(''model'', StringFlag ''m''), (''max-ctx'', IntFlag 4096), (''think'', BoolFlag False)] []"
  using Parse_value [of "''model''" chatFlags "StringFlag []" "''m''" "StringFlag ''m''" "[]"]
  by (simp add: sampleChatArgs_def chatFlags_def isBoolFlag_def)

lemma sample_open:
  "\<exists>s w'. openSession sampleEnv (chatConfig ''m'' 4096) sampleWorld = (Some (Inr s), w')"
  using sample_Load
  by (simp add: openSession_def sampleEnv_def chatConfig_def Start_def sampleOs_def freePort_def
      Dial_def WaitReady_def waitLoop.simps GetModel_def startupTimeout_def Let_def)

lemma sample_runChat:
  "\<exists>h out w'. runChat sampleEnv sampleRt sampleChatArgs [''/think on'' @ nl, ''/quit'' @ nl] sampleWorld =
     (Finished h out, w')"
  using sample_open
  by (auto simp: runChat_def sample_chatFlags stringOf_def intOf_def boolOf_def chatLine_def trimNewline_def Let_def)

lemma sample_fresh: "fresh_temp (en_os sampleEnv) sampleWorld"
  by (simp add: sampleEnv_def sampleOs_def sampleWorld_def fresh_temp_def)

lemma chat_history_exchanges_witness:
  "\<exists>h out w'. runChat sampleEnv sampleRt sampleChatArgs [''/think on'' @ nl, ''/quit'' @ nl] sampleWorld =
       (Finished h out, w') \<and> exchanges h \<and> w' = sampleWorld"
proof -
  obtain h out w' where r: "runChat sampleEnv sampleRt sampleChatArgs [''/think on'' @ nl, ''/quit'' @ nl]
      sampleWorld = (Finished h out, w')"
    using sample_runChat by blast
  from chat_history_exchanges [OF sample_fresh r] r show ?thesis by blast
qed



end
