(* ===== verification/Spec2Isabelle.thy ===== *)
theory Spec2Isabelle
  imports PretokSpec TokLoad Requests ChatCli
begin

text \<open>
  FlashQwen serves a Qwen3 model.  Its Go part, modelled here, owns everything that is text: it
  tokenizes, renders conversations into the ChatML prompt, drives the token engine over gRPC,
  decodes the engine's tokens into text and tool calls, and exposes the result as an
  OpenAI-compatible HTTP service and an interactive chat.  The engine itself (C++/CUDA, under
  \<open>engine/\<close>) only sees token ids.

  How a request flows, and which theory models each part:

  \<^item> \<open>Prelude\<close>: bytes, runes, 32-bit conversions and the list lemmas the components share.
  \<^item> \<open>Utf8\<close>: the parts of Go's \<open>unicode/utf8\<close> and of its string ranging that the program uses.
  \<^item> \<open>Decimal\<close>, \<open>Strconv\<close>, \<open>Float32\<close>, \<open>Flags\<close>: the parts of Go's \<open>strconv\<close>, \<open>time\<close> and
    \<open>flag\<close> and of its float conversion that the program uses.  What \<open>Itoa\<close> prints is parsed back;
    a decimal fraction is rounded to a double and then to a single between 0 and 1.
  \<^item> \<open>Json\<close>, \<open>JsonFacts\<close>: \<open>encoding/json\<close>: the grammar with its nesting limit, quoting and
    unquoting, \<open>Marshal\<close>, and decoding into strings, numbers, slices and struct fields.  What
    \<open>Marshal\<close> writes is one line and is read back as the value (\<open>marshal_encodes\<close>).
  \<^item> \<open>Tokenizer\<close>: the \<open>Tokenizer\<close> struct of \<open>internal/tokenizer/tokenizer.go\<close> as the record
    \<open>tokenizer\<close>, \<open>buildByteMaps\<close>, \<open>symToBytes\<close> and the lookups \<open>Decode\<close>, \<open>ID\<close>,
    \<open>IsSpecial\<close>, \<open>VocabSize\<close>.  The byte tables invert each other.
  \<^item> \<open>Bpe\<close>: \<open>applyBPE\<close>.  Its loop computes the unique normal form of the step relation
    \<open>bpe_merge\<close>, and loses no byte over a complete vocabulary (\<open>vocab_ok\<close>).
  \<^item> \<open>Pretok\<close>, \<open>PretokSpec\<close>: \<open>pretokenizeAndBPE\<close>.  Pieces are non-empty and partition the text;
    each ends where the first match of the Qwen regular expression, lookahead included, ends.
  \<^item> \<open>Encode\<close>: \<open>Encode\<close>, with leftmost-longest splitting on special literals.
  \<^item> \<open>TokLoad\<close>: \<open>Load\<close> and the three file loaders.  A complete model directory gives a lossless
    tokenizer.
  \<^item> \<open>ChatFormat\<close>, \<open>ChatRender\<close>, \<open>ChatStream\<close>: \<open>internal/chatml\<close>: stop ids and tool markers,
    \<open>Render\<close> against its grouping into turns, and the \<open>Stream\<close> that turns ids into text deltas
    and tool calls.
  \<^item> \<open>RuneBuffer\<close>: the rune buffering both the stream and the raw completion use, as the locale
    \<open>drain\<close>; each of the two copies of the routine in the code is an interpretation of it.
  \<^item> \<open>EngineClient\<close>, \<open>Generate\<close>: \<open>internal/engine\<close>: errors, the event loop, the readiness poll,
    the length policy, \<open>buildRequest\<close>, \<open>Generate\<close> and \<open>Complete\<close>.  Both are refined to
    functions of the engine's events (\<open>chatResult\<close>, \<open>textResult\<close>).
  \<^item> \<open>ServerTypes\<close>, \<open>Completions\<close>: \<open>internal/server\<close>: the wire types, the request mappings, and
    the handlers as the list of their writes.  What a client reads from a stream is what the
    blocking endpoint returns.
  \<^item> \<open>Wire\<close>, \<open>Requests\<close>: the bytes on the connection: the JSON of the response types and the
    framing of events, decoded by a client; and request bodies decoded by the tags of the request
    types.
  \<^item> \<open>Supervisor\<close>: \<open>internal/supervisor\<close>: the stderr tail and the life of the engine process
    with the files and connections it holds.
  \<^item> \<open>Session\<close>, \<open>Serve\<close>, \<open>ChatCli\<close>: \<open>cmd/flashqwen\<close>: opening and stopping a session, the
    serve command with its signal goroutine as the step relation \<open>serve_step\<close>, the chat command,
    and the dispatch.  Every way to exit leaves nothing behind.

  The interfaces are locales: \<open>token_decoder\<close> (decoding is concatenative), \<open>codec\<close> (decoding
  undoes encoding, interpreted for \<open>applyBPE\<close> and for the pre-tokenizer), \<open>drain\<close>, and
  \<open>completion_source\<close> (what \<open>Generate\<close> and \<open>Complete\<close> promise the handlers).

  State is passed explicitly; a Go callback is the state its closure captures, threaded through
  the loop, or the list of its calls.  Errors are sums.  A loop that may not end is an option:
  \<open>Encode\<close> is a partial function whose \<open>None\<close> is not returning (an empty special literal
  makes it loop), and a list of received events that stops short is a \<open>Recv\<close> still blocked.
  All other loops are total functions with a measure, so no fuel is needed.

  Arguments of the model, standing for what is not under \<open>src/\<close> or is outside the program: file
  contents and the error texts of reading them, the answers of the operating system and of gRPC,
  the order in which Go ranges over a map, gin's binding of a body to a request, the clock and
  random numbers.

  Concurrency is the interleaving of steps: \<open>engine_run\<close> in \<open>Supervisor\<close> runs stderr writes, the
  reaper and \<open>Stop\<close> in any order; \<open>serve_step\<close> in \<open>Serve\<close> runs the HTTP server's failure, the
  signal handler and the engine's end.  A run of \<open>serve_step\<close> has at most 12 steps.

  Not modelled: gin itself (routing is a dispatch on the registered routes), log lines, a signal
  that arrives before \<open>serve\<close> asks for it or during \<open>chat\<close> (it ends the process where it is), the
  generated stubs in \<open>internal/enginepb\<close>, and the C++ engine.  Integers are unbounded except where
  the code narrows them: the protocol's 32-bit fields, and the 64 bits of parsed numbers.

  This theory holds the results that span the components: the prompt that reaches the engine is
  the rendered conversation, and the text that reaches an HTTP client is what the engine's tokens
  decode to.
\<close>

section \<open>From text to tokens and back\<close>

lemma loaded_int32:
  assumes "list_all (\<lambda>i. - (2 ^ 31) \<le> i \<and> i < 2 ^ 31) (map snd vocab @ map sp_id sps)"
  shows "int32_ids (loaded vocab sps ms)"
proof -
  have r: "- (2 ^ 31) \<le> i \<and> i < 2 ^ 31" if "i \<in> snd ` set vocab \<or> i \<in> sp_id ` set sps" for i
    using assms that unfolding list_all_iff by auto
  have "i \<in> snd ` set vocab \<or> i \<in> sp_id ` set sps" if "tokToID (loaded vocab sps ms) s = Some i" for s i
    using that puts_Some [of "vocab @ map (\<lambda>sp. (sp_str sp, sp_id sp)) sps" Map.empty s i]
    by (force simp: loaded_fields)
  with r show ?thesis
    by (auto simp: int32_ids_def list_all_iff loaded_fields(5) simp del: power_numeral)
qed

text \<open>A generator on a tokenizer loaded from a complete directory with 32-bit ids.\<close>

lemma complete_loaded_gen:
  assumes "reads env dir vocab sps bs" "files_complete vocab sps (mergesOf bs)"
    and "list_all (\<lambda>i. - (2 ^ 31) \<le> i \<and> i < 2 ^ 31) (map snd vocab @ map sp_id sps)"
    and "Load env dir = Inr (g_tok g)"
  shows "enc_ok (g_tok g)" and "int32_ids (g_tok g)"
proof -
  have "ids_ok vocab sps" using assms(2) by (simp add: files_complete_def)
  then have tok: "g_tok g = loaded vocab sps (mergesOf bs)"
    using Load_loaded [OF assms(1)] assms(4) by simp
  show "enc_ok (g_tok g)" unfolding tok by (rule complete_enc_ok [OF assms(2)])
  show "int32_ids (g_tok g)" unfolding tok by (rule loaded_int32 [OF assms(3)])
qed

lemma build_ids:
  assumes "buildRequest g req = Some (Inr greq)" "rq_InputIDs req = []"
    and "enc_ok (g_tok g)" "int32_ids (g_tok g)"
  shows "Decode (g_tok g) (map of_int32 (InputIds greq)) =
    (if rq_RawPrompt req \<noteq> [] then rq_RawPrompt req
     else Render (rq_Messages req) (rq_Tools req) (rq_EnableThinking req))"
    (is "_ = ?prompt")
proof -
  from assms(1) obtain ids where ids: "promptIDs g req = Some ids" "InputIds greq = map to_int32 ids"
    by (rule buildRequest_Inr)
  have ne: "no_empty_special (g_tok g)" using assms(3) by (simp add: enc_ok_def)
  then have "ids = encodeRest (g_tok g) ?prompt"
    using ids(1) assms(2) by (auto simp: promptIDs_def Encode_encodeRest split: if_splits)
  moreover from this have "map of_int32 (map to_int32 ids) = ids"
    using encodeRest_int32 [OF ne assms(4)] by (auto intro!: map_idI simp: of_to_int32)
  ultimately show ?thesis
    using ids(2) encodeRest_lossless [OF assms(3)] by simp
qed

text \<open>
  C2: with a tokenizer loaded from a complete model directory whose ids fit in 32
  bits, the token ids put on the wire decode to the prompt: the raw prompt, or the rendered
  conversation.  Nothing is lost in splitting on specials, pre-tokenization, byte-pair encoding,
  the lookup of ids or their truncation to 32 bits.
\<close>

theorem prompt_reaches_engine:
  assumes "reads env dir vocab sps bs" "files_complete vocab sps (mergesOf bs)"
    and "list_all (\<lambda>i. - (2 ^ 31) \<le> i \<and> i < 2 ^ 31) (map snd vocab @ map sp_id sps)"
    and "Load env dir = Inr (g_tok g)"
    and "rq_InputIDs req = []" "buildRequest g req = Some (Inr greq)"
  shows "Decode (g_tok g) (map of_int32 (InputIds greq)) =
    (if rq_RawPrompt req \<noteq> [] then rq_RawPrompt req
     else Render (rq_Messages req) (rq_Tools req) (rq_EnableThinking req))"
  by (rule build_ids [OF assms(6,5) complete_loaded_gen [OF assms(1-4)]])

definition loadedGen :: generator where
  "loadedGen = \<lparr>g_cm = sampleFormat, g_tok = loaded sampleVocab sampleAdded (mergesOf sampleMerges),
     g_maxCtx = 100\<rparr>"

definition rawReq :: request where
  "rawReq = sampleReq\<lparr>rq_InputIDs := [], rq_RawPrompt := ''<s>''\<rparr>"

lemma loadedGen_specials: "specials (g_tok loadedGen) = sampleAdded"
  by (simp add: loadedGen_def loaded_fields sampleAdded_def sortSpecials_def)

lemma loadedGen_ctx: "g_maxCtx loadedGen = 100"
  by (simp add: loadedGen_def)

lemma rawReq_budget: "rq_MaxTokens rawReq = 0"
  by (simp add: rawReq_def sampleReq_def)

lemma rawReq_ids: "promptIDs loadedGen rawReq = Some [257]"
proof -
  have ne: "no_empty_special (g_tok loadedGen)"
    by (simp add: no_empty_special_def loadedGen_specials sampleAdded_def)
  have best: "bestSpecial (specials (g_tok loadedGen)) ''<s>'' 0 None = Some (0, 257, 3)"
    by (simp add: loadedGen_specials sampleAdded_def)
  have "encodeRest (g_tok loadedGen) ''<s>'' = [257]"
    using encodeRest_split [OF _ ne best] by simp
  then show ?thesis
    by (simp add: promptIDs_def rawReq_def sampleReq_def Encode_encodeRest [OF ne])
qed

lemma prompt_reaches_engine_witness:
  "\<exists>greq. buildRequest loadedGen rawReq = Some (Inr greq) \<and>
     Decode (g_tok loadedGen) (map of_int32 (InputIds greq)) = ''<s>''"
proof -
  obtain greq where b: "buildRequest loadedGen rawReq = Some (Inr greq)"
    using loadedGen_ctx rawReq_budget
    by (simp add: buildRequest_def rawReq_ids resolveMaxTokens_def Let_def)
  have "Decode (g_tok loadedGen) (map of_int32 (InputIds greq)) =
    (if rq_RawPrompt rawReq \<noteq> [] then rq_RawPrompt rawReq
     else Render (rq_Messages rawReq) (rq_Tools rawReq) (rq_EnableThinking rawReq))"
  proof (rule prompt_reaches_engine [OF sample_reads sample_complete _ _ _ b])
    show "list_all (\<lambda>i. - (2 ^ 31) \<le> i \<and> i < 2 ^ 31) (map snd sampleVocab @ map sp_id sampleAdded)"
      by (auto simp: sampleVocab_def sampleAdded_def list_all_iff simp del: upt_rec_numeral)
    show "Load sampleFiles ''m'' = Inr (g_tok loadedGen)"
      by (simp add: sample_Load loadedGen_def)
    show "rq_InputIDs rawReq = []" by (simp add: rawReq_def)
  qed
  with b show ?thesis by (simp add: rawReq_def)
qed

text \<open>
  C6: what a client collects from a chat stream is what the engine generated: the
  contents add up to the decoding of the visible tokens before the engine's \<open>Done\<close>, and the tool
  calls are the numbered calls among them.
\<close>

theorem chat_stream_end_to_end:
  assumes "cx_flusher cx" "buildRequest (sv_gen sv) req = Some (Inr greq)"
    and "rt_rpc rt greq = Inr evs" "endOf evs = Some (Inr s)"
  shows "sseContent (streamChat rt sv cx req u) =
      Decode (fm_tok (g_cm (sv_gen sv))) (visible (g_cm (sv_gen sv)) False (map of_int32 (tokensOf evs))) \<and>
    sseCalls (streamChat rt sv cx req u) =
      toolCalls (numberCalls 0 (List.map_filter
        (parseBody (fm_tok (g_cm (sv_gen sv))))
        (callBodies (g_cm (sv_gen sv)) False [] (map of_int32 (tokensOf evs)))))"
proof -
  let ?cm = "g_cm (sv_gen sv)"
  have g: "Generate rt (sv_gen sv) req = (chatDeltas ?cm evs, Some (Inr (chatResult ?cm evs s)))"
    using Generate_run [OF assms(2,3)] assms(4) by simp
  show ?thesis
    unfolding streamChat_view(1,2) [OF assms(1) g] chatDeltas_result [OF assms(4)]
    by (simp add: chatResult_def Let_def)
qed

lemma chat_stream_end_to_end_witness:
  "sseContent (streamChat sampleRt sampleServer sampleConn sampleReq False) =
      Decode (fm_tok (g_cm (sv_gen sampleServer)))
        (visible (g_cm (sv_gen sampleServer)) False (map of_int32 (tokensOf sampleEvents))) \<and>
   sseCalls (streamChat sampleRt sampleServer sampleConn sampleReq False) =
      toolCalls (numberCalls 0 (List.map_filter
        (parseBody (fm_tok (g_cm (sv_gen sampleServer))))
        (callBodies (g_cm (sv_gen sampleServer)) False [] (map of_int32 (tokensOf sampleEvents)))))"
  by (rule chat_stream_end_to_end [OF _ _ _ sample_end])
    (use sample_build in \<open>simp_all add: sampleConn_def sampleServer_def sampleRt_def\<close>)

section \<open>From the bytes of a request to the engine\<close>

text \<open>
  C3: the conversation a client writes into the JSON body of a chat request is the
  conversation whose rendering the engine's token ids spell: decoding the body, mapping it to the
  neutral request, rendering, encoding and narrowing to 32 bits lose nothing.
\<close>

theorem request_body_reaches_engine:
  assumes "reads env dir vocab sps bs" "files_complete vocab sps (mergesOf bs)"
    and "list_all (\<lambda>i. - (2 ^ 31) \<le> i \<and> i < 2 ^ 31) (map snd vocab @ map sp_id sps)"
    and "Load env dir = Inr (g_tok g)"
    and "list_all validMessage msgs" "- (2 ^ 63) \<le> maxTokens" "maxTokens \<le> MaxInt"
    and "unmarshalChat (clientBody model msgs stream thinks maxTokens) = Some req"
    and "buildRequest g (decode req) = Some (Inr greq)"
  shows "Decode (g_tok g) (map of_int32 (InputIds greq)) = Render msgs [] thinks"
proof -
  have "map cleanMessage msgs = msgs"
    by (rule map_idI) (use assms(5) in \<open>simp add: list_all_iff cleanMessage_valid\<close>)
  then have "decode req = \<lparr>rq_Messages = msgs, rq_Tools = [], rq_EnableThinking = thinks,
      rq_MaxTokens = maxTokens, rq_Temperature = None, rq_TopP = None, rq_IgnoreEOS = False,
      rq_RawPrompt = [], rq_InputIDs = []\<rparr>"
    using assms(8) by (simp add: clientBody_reads [OF assms(6,7)] decode_read comp_def) (auto simp: decode_def decode_read comp_def)
  then show ?thesis
    using build_ids [OF assms(9)] complete_loaded_gen [OF assms(1-4)] by simp
qed

lemma request_body_reaches_engine_witness:
  "\<exists>g req greq. unmarshalChat (clientBody ''qwen3'' [plainMessage ''user'' ''hi''] False False 0) = Some req \<and>
     buildRequest g (decode req) = Some (Inr greq) \<and>
     Decode (g_tok g) (map of_int32 (InputIds greq)) = Render [plainMessage ''user'' ''hi''] [] False"
proof -
  let ?body = "clientBody ''qwen3'' [plainMessage ''user'' ''hi''] False False 0"
  have r: "- (2 ^ 63) \<le> (0 :: int)" "0 \<le> MaxInt" by (simp_all add: MaxInt_def)
  obtain req where req: "unmarshalChat ?body = Some req"
    using clientBody_reads [OF r] by blast
  have d: "rq_InputIDs (decode req) = []" "rq_RawPrompt (decode req) = []" "rq_MaxTokens (decode req) = 0"
    using req by (auto simp: clientBody_reads [OF r] decode_def)
  have ne: "no_empty_special (g_tok loadedGen)"
    by (simp add: no_empty_special_def loadedGen_specials sampleAdded_def)
  obtain ids where ids: "promptIDs loadedGen (decode req) = Some ids"
    by (simp add: promptIDs_def d Encode_encodeRest [OF ne] split: if_splits)
  define g where "g = loadedGen\<lparr>g_maxCtx := int (length ids) + 1\<rparr>"
  have "promptIDs g (decode req) = Some ids" using ids by (simp add: promptIDs_def g_def d)
  then obtain greq where b: "buildRequest g (decode req) = Some (Inr greq)"
    by (simp add: buildRequest_def resolveMaxTokens_def d g_def Let_def)
  have "Decode (g_tok g) (map of_int32 (InputIds greq)) = Render [plainMessage ''user'' ''hi''] [] False"
  proof (rule request_body_reaches_engine [OF sample_reads sample_complete _ _ _ r req b])
    show "list_all (\<lambda>i. - (2 ^ 31) \<le> i \<and> i < 2 ^ 31) (map snd sampleVocab @ map sp_id sampleAdded)"
      by (auto simp: sampleVocab_def sampleAdded_def list_all_iff simp del: upt_rec_numeral)
    show "Load sampleFiles ''m'' = Inr (g_tok g)"
      by (simp add: sample_Load loadedGen_def g_def)
    have "ValidString ''user''" "ValidString ''hi''" by (simp_all add: ValidString_step DecodeRune_ascii RuneError_def RuneSelf_def)
    then show "list_all validMessage [plainMessage ''user'' ''hi'']"
      by (simp add: validMessage_def plainMessage_def)
  qed
  with req b show ?thesis by blast
qed

end
